(* ===== verification/Prelude.thy ===== *)
theory Prelude
  imports Main "HOL-Library.Sublist"
begin

text \<open>
  Shared vocabulary of the development: the fact collections that the component proofs
  rewrite with, byte-string helpers, and the generic lemmas on lists that several
  components use. A Go string is a sequence of bytes, so it is modelled as a list of
  HOL characters (eight bits each); literals in the code are ASCII.
\<close>

section \<open>Fact collections\<close>

named_theorems go_string_simps "rewrite rules for the modelled string functions"
named_theorems config_simps "rewrite rules for configuration parsing and validation"
named_theorems health_simps "rewrite rules for the health components"

section \<open>Byte strings\<close>

type_synonym go_string = string

definition str_contains :: "go_string \<Rightarrow> go_string \<Rightarrow> bool" where
  "str_contains s sub = sublist sub s"

text \<open>A byte as a number, and the byte of a number.\<close>

definition byte :: "char \<Rightarrow> int" where
  "byte c = of_char c"

definition is_digit :: "char \<Rightarrow> bool" where
  "is_digit c \<longleftrightarrow> 48 \<le> byte c \<and> byte c \<le> 57"

definition digit_val :: "char \<Rightarrow> int" where
  "digit_val c = byte c - 48"

definition digit_char :: "int \<Rightarrow> char" where
  "digit_char n = char_of (48 + n)"

lemma byte_digit_char: "0 \<le> n \<Longrightarrow> n < 10 \<Longrightarrow> byte (digit_char n) = 48 + n"
  by (simp add: byte_def digit_char_def)

lemma is_digit_digit_char [simp]: "0 \<le> n \<Longrightarrow> n < 10 \<Longrightarrow> is_digit (digit_char n)"
  by (simp add: is_digit_def byte_digit_char)

lemma digit_val_digit_char [simp]: "0 \<le> n \<Longrightarrow> n < 10 \<Longrightarrow> digit_val (digit_char n) = n"
  by (simp add: digit_val_def byte_digit_char)

lemma digit_val_less: "is_digit c \<Longrightarrow> 0 \<le> digit_val c \<and> digit_val c < 10"
  by (auto simp: is_digit_def digit_val_def)

section \<open>Lists\<close>

lemma list_all_concat: "list_all P (concat xss) = list_all (list_all P) xss"
  by (induction xss) auto

lemma filter_count_append:
  "length (filter P (xs @ ys)) = length (filter P xs) + length (filter P ys)"
  by simp

lemma takeWhile_all_append:
  "\<forall>x \<in> set xs. P x \<Longrightarrow> ys = [] \<or> \<not> P (hd ys) \<Longrightarrow> takeWhile P (xs @ ys) = xs"
  by (induction xs) (auto, metis list.exhaust_sel takeWhile.simps(1,2))

lemma dropWhile_all_append:
  "\<forall>x \<in> set xs. P x \<Longrightarrow> ys = [] \<or> \<not> P (hd ys) \<Longrightarrow> dropWhile P (xs @ ys) = ys"
  by (induction xs) (auto, metis list.exhaust_sel dropWhile.simps(1,2))

end
