(* ===== verification/Go_Strings.thy ===== *)
theory Go_Strings
  imports Prelude
begin

text \<open>
  The string operations of Go's standard library that the program uses: splitting and
  joining, \<open>strings.TrimSpace\<close>, \<open>strings.ToLower\<close> (as far as a comparison with ASCII
  text can see it), decimal integers (\<open>strconv.Itoa\<close>, \<open>strconv.Atoi\<close>) and the quoting
  that the \<open>%q\<close> verb does.
\<close>

section \<open>Split and join\<close>

primrec split_on :: "char \<Rightarrow> go_string \<Rightarrow> go_string list" where
  "split_on c [] = [[]]"
| "split_on c (x # xs) =
     (if x = c then [] # split_on c xs
      else (case split_on c xs of [] \<Rightarrow> [[x]] | w # ws \<Rightarrow> (x # w) # ws))"

fun join :: "go_string \<Rightarrow> go_string list \<Rightarrow> go_string" where
  "join sep [] = []"
| "join sep [x] = x"
| "join sep (x # y # ys) = x @ sep @ join sep (y # ys)"

lemma split_on_not_Nil [simp]: "split_on c s \<noteq> []"
  by (cases s) (auto split: list.splits)

lemma join_split_on: "join [c] (split_on c s) = s"
proof (induction s)
  case (Cons x xs)
  then show ?case
    by (cases "split_on c xs") (auto, metis join.simps(2) join.simps(3) list.exhaust append_Cons append_Nil)+
qed simp

lemma split_on_no_sep: "c \<notin> set s \<Longrightarrow> split_on c s = [s]"
  by (induction s) auto

lemma split_on_append: "c \<notin> set w \<Longrightarrow> split_on c (w @ c # s) = w # split_on c s"
  by (induction w) auto

lemma split_on_free: "w \<in> set (split_on c s) \<Longrightarrow> c \<notin> set w"
  by (induction s arbitrary: w) (auto split: if_splits list.splits)

lemma split_on_join:
  "ws \<noteq> [] \<Longrightarrow> \<forall>w \<in> set ws. c \<notin> set w \<Longrightarrow> split_on c (join [c] ws) = ws"
  by (induction "[c]" ws rule: join.induct) (auto simp: split_on_no_sep split_on_append)

section \<open>White space\<close>

text \<open>
  \<open>strings.TrimSpace\<close> removes leading and trailing runes for which \<open>unicode.IsSpace\<close>
  holds. Each entry is the UTF-8 encoding of one such rune; a multi-byte encoding starts
  with a lead byte and cannot overlap another rune, so matching encodings as byte
  prefixes and suffixes is what decoding rune by rune does.
\<close>

definition space_runes :: "go_string list" where
  "space_runes =
     [[CHR 0x09], [CHR 0x0A], [CHR 0x0B], [CHR 0x0C], [CHR 0x0D], [CHR 0x20],
      [CHR 0xC2, CHR 0x85], [CHR 0xC2, CHR 0xA0], [CHR 0xE1, CHR 0x9A, CHR 0x80],
      [CHR 0xE2, CHR 0x80, CHR 0x80], [CHR 0xE2, CHR 0x80, CHR 0x81],
      [CHR 0xE2, CHR 0x80, CHR 0x82], [CHR 0xE2, CHR 0x80, CHR 0x83],
      [CHR 0xE2, CHR 0x80, CHR 0x84], [CHR 0xE2, CHR 0x80, CHR 0x85],
      [CHR 0xE2, CHR 0x80, CHR 0x86], [CHR 0xE2, CHR 0x80, CHR 0x87],
      [CHR 0xE2, CHR 0x80, CHR 0x88], [CHR 0xE2, CHR 0x80, CHR 0x89],
      [CHR 0xE2, CHR 0x80, CHR 0x8A], [CHR 0xE2, CHR 0x80, CHR 0xA8],
      [CHR 0xE2, CHR 0x80, CHR 0xA9], [CHR 0xE2, CHR 0x80, CHR 0xAF],
      [CHR 0xE2, CHR 0x81, CHR 0x9F], [CHR 0xE3, CHR 0x80, CHR 0x80]]"

function trim_prefixes :: "go_string list \<Rightarrow> go_string \<Rightarrow> go_string" where
  "trim_prefixes ws s =
     (case find (\<lambda>w. w \<noteq> [] \<and> prefix w s) ws of
        None \<Rightarrow> s
      | Some w \<Rightarrow> trim_prefixes ws (drop (length w) s))"
  by pat_completeness auto
termination
proof (relation "measure (\<lambda>(ws, s). length s)")
  fix ws s w
  assume "find (\<lambda>w. w \<noteq> [] \<and> prefix w s) ws = Some w"
  then have "w \<noteq> [] \<and> prefix w s"
    by (induction ws) (auto split: if_splits)
  then show "((ws, drop (length w) s), (ws, s)) \<in> measure (\<lambda>(ws, s). length s)"
    by (auto simp: prefix_def)
qed simp

declare trim_prefixes.simps [simp del]

definition trim_left :: "go_string \<Rightarrow> go_string" where
  "trim_left s = trim_prefixes space_runes s"

definition trim_right :: "go_string \<Rightarrow> go_string" where
  "trim_right s = rev (trim_prefixes (map rev space_runes) (rev s))"

definition trim_space :: "go_string \<Rightarrow> go_string" where
  "trim_space s = trim_right (trim_left s)"

lemma find_None_prefix: "find P ws = None \<longleftrightarrow> (\<forall>w \<in> set ws. \<not> P w)"
  by (auto simp: find_None_iff)

lemma trim_prefixes_suffix: "suffix (trim_prefixes ws s) s"
proof (induction ws s rule: trim_prefixes.induct)
  case (1 ws s)
  show ?case
  proof (cases "find (\<lambda>w. w \<noteq> [] \<and> prefix w s) ws")
    case None
    then show ?thesis by (simp add: trim_prefixes.simps [of ws s])
  next
    case (Some w)
    then have "suffix (trim_prefixes ws s) (drop (length w) s)"
      using 1 by (simp add: trim_prefixes.simps [of ws s])
    then show ?thesis
      using suffix_drop suffix_order.trans by blast
  qed
qed

lemma trim_prefixes_done:
  "w \<in> set ws \<Longrightarrow> w \<noteq> [] \<Longrightarrow> \<not> prefix w (trim_prefixes ws s)"
proof (induction ws s rule: trim_prefixes.induct)
  case (1 ws s)
  show ?case
  proof (cases "find (\<lambda>w. w \<noteq> [] \<and> prefix w s) ws")
    case None
    then have "trim_prefixes ws s = s" by (simp add: trim_prefixes.simps [of ws s])
    with None show ?thesis
      using 1(2,3) by (auto simp: find_None_prefix)
  next
    case (Some v)
    then show ?thesis using 1 by (simp add: trim_prefixes.simps [of ws s])
  qed
qed

lemma trim_prefixes_id:
  "(\<And>w. w \<in> set ws \<Longrightarrow> w \<noteq> [] \<Longrightarrow> \<not> prefix w s) \<Longrightarrow> trim_prefixes ws s = s"
  by (subst trim_prefixes.simps) (auto split: option.splits simp: find_Some_iff)

text \<open>A string whose first and last bytes are not part of white space is left alone.\<close>

definition is_space_byte :: "char \<Rightarrow> bool" where
  "is_space_byte c \<longleftrightarrow> c \<in> set (concat space_runes)"

lemma trim_space_id:
  assumes "s = [] \<or> (\<not> is_space_byte (hd s) \<and> \<not> is_space_byte (last s))"
  shows "trim_space s = s"
proof -
  have in_bytes: "x \<in> set w \<Longrightarrow> w \<in> set space_runes \<Longrightarrow> is_space_byte x" for x w
    by (auto simp: is_space_byte_def)
  have left: "trim_left s = s"
    unfolding trim_left_def
  proof (rule trim_prefixes_id)
    fix w assume w: "w \<in> set space_runes" "w \<noteq> []"
    show "\<not> prefix w s"
    proof
      assume "prefix w s"
      with w(2) have "s \<noteq> []" "hd s \<in> set w" by (auto simp: prefix_def)
      with assms in_bytes w(1) show False by auto
    qed
  qed
  have right: "trim_right s = s"
    unfolding trim_right_def
  proof (subst trim_prefixes_id)
    fix w assume w: "w \<in> set (map rev space_runes)" "w \<noteq> []"
    then obtain v where v: "w = rev v" "v \<in> set space_runes" "v \<noteq> []" by auto
    show "\<not> prefix w (rev s)"
    proof
      assume "prefix w (rev s)"
      then have "suffix v s" by (simp add: v(1) suffix_to_prefix)
      with v(3) have "s \<noteq> []" "last s \<in> set v" by (auto simp: suffix_def)
      with assms in_bytes v(2) show False by auto
    qed
  qed simp
  show ?thesis by (simp add: trim_space_def left right)
qed

section \<open>Lower case\<close>

text \<open>
  \<open>strings.ToLower\<close>, as far as a later comparison with ASCII text can observe it: ASCII
  letters are lowered, and the only two other runes whose lower case is ASCII are U+0130
  (to \<open>i\<close>) and U+212A (to \<open>k\<close>). Every other rune becomes a rune outside ASCII, kept here
  as its own bytes.
\<close>

definition lower_byte :: "char \<Rightarrow> char" where
  "lower_byte c = (if 65 \<le> byte c \<and> byte c \<le> 90 then char_of (byte c + 32) else c)"

function to_lower :: "go_string \<Rightarrow> go_string" where
  "to_lower [] = []"
| "to_lower (x # s) =
     (if prefix [CHR 0xC4, CHR 0xB0] (x # s) then CHR ''i'' # to_lower (drop 1 s)
      else if prefix [CHR 0xE2, CHR 0x84, CHR 0xAA] (x # s) then CHR ''k'' # to_lower (drop 2 s)
      else lower_byte x # to_lower s)"
  by pat_completeness auto
termination
  by (relation "measure length") auto

definition is_ascii :: "char \<Rightarrow> bool" where
  "is_ascii c \<longleftrightarrow> byte c < 128"

lemma to_lower_ascii:
  "\<forall>c \<in> set s. is_ascii c \<Longrightarrow> to_lower s = map lower_byte s"
  by (induction s) (auto simp: is_ascii_def byte_def)

lemma to_lower_ascii_append:
  "\<forall>c \<in> set p. is_ascii c \<Longrightarrow> to_lower (p @ s) = map lower_byte p @ to_lower s"
  by (induction p) (auto simp: is_ascii_def byte_def)

section \<open>Decimal integers\<close>

function nat_digits :: "int \<Rightarrow> go_string" where
  "nat_digits n =
     (if n < 10 then [digit_char n] else nat_digits (n div 10) @ [digit_char (n mod 10)])"
  by pat_completeness auto
termination
  by (relation "measure nat") auto

declare nat_digits.simps [simp del]

definition itoa :: "int \<Rightarrow> go_string" where
  "itoa i = (if i < 0 then CHR ''-'' # nat_digits (- i) else nat_digits i)"

definition int64 :: "int \<Rightarrow> bool" where
  "int64 v \<longleftrightarrow> - 9223372036854775808 \<le> v \<and> v \<le> 9223372036854775807"

primrec digits_val :: "int \<Rightarrow> go_string \<Rightarrow> int option" where
  "digits_val n [] = Some n"
| "digits_val n (c # s) = (if is_digit c then digits_val (10 * n + digit_val c) s else None)"

definition split_sign :: "go_string \<Rightarrow> bool \<times> go_string" where
  "split_sign s =
     (case s of
        [] \<Rightarrow> (False, [])
      | c # r \<Rightarrow> if c = CHR ''-'' then (True, r)
                 else if c = CHR ''+'' then (False, r) else (False, s))"

text \<open>\<open>strconv.Atoi\<close> on a 64-bit platform; \<open>None\<close> is its error.\<close>

definition atoi :: "go_string \<Rightarrow> int option" where
  "atoi s =
     (let (neg, ds) = split_sign s in
      if ds = [] then None
      else (case digits_val 0 ds of
              None \<Rightarrow> None
            | Some n \<Rightarrow> let v = (if neg then - n else n) in
                        if int64 v then Some v else None))"

lemma nat_digits_not_Nil [simp]: "nat_digits n \<noteq> []"
  by (subst nat_digits.simps) simp

lemma nat_digits_digits: "0 \<le> n \<Longrightarrow> \<forall>c \<in> set (nat_digits n). is_digit c"
proof (induction n rule: nat_digits.induct)
  case (1 n)
  then show ?case by (cases "n < 10") (auto simp: nat_digits.simps [of n])
qed

lemma digits_val_append:
  "digits_val n (s @ t) = (case digits_val n s of None \<Rightarrow> None | Some m \<Rightarrow> digits_val m t)"
  by (induction s arbitrary: n) auto

lemma digits_val_nat_digits: "0 \<le> n \<Longrightarrow> digits_val 0 (nat_digits n) = Some n"
proof (induction n rule: nat_digits.induct)
  case (1 n)
  then show ?case
    by (cases "n < 10") (auto simp: nat_digits.simps [of n] digits_val_append)
qed

lemma digit_not_sign: "is_digit c \<Longrightarrow> c \<noteq> CHR ''-'' \<and> c \<noteq> CHR ''+''"
  by (auto simp: is_digit_def byte_def)

lemma split_sign_digits: "\<forall>c \<in> set s. is_digit c \<Longrightarrow> split_sign s = (False, s)"
  using digit_not_sign by (cases s) (auto simp: split_sign_def)

lemma atoi_itoa: "int64 v \<Longrightarrow> atoi (itoa v) = Some v"
  using nat_digits_digits [of v]
  by (auto simp: atoi_def itoa_def split_sign_digits digits_val_nat_digits)
     (simp add: split_sign_def digits_val_nat_digits)

lemma itoa_chars: "c \<in> set (itoa n) \<Longrightarrow> is_digit c \<or> c = CHR ''-''"
  using nat_digits_digits [of n] nat_digits_digits [of "- n"]
  by (auto simp: itoa_def split: if_splits)

lemma atoi_int64: "atoi s = Some v \<Longrightarrow> int64 v"
  by (auto simp: atoi_def Let_def split: prod.splits if_splits option.splits)

section \<open>Quoting\<close>

text \<open>
  \<open>utf8.DecodeRuneInString\<close> on a string whose first byte is 128 or more: the rune and its
  width, \<open>None\<close> for an invalid encoding (which Go reports as \<open>RuneError\<close> of width 1).
\<close>

definition cont :: "int \<Rightarrow> int \<Rightarrow> char \<Rightarrow> bool" where
  "cont lo hi c \<longleftrightarrow> lo \<le> byte c \<and> byte c \<le> hi"

definition lead2 :: "char \<Rightarrow> char \<Rightarrow> bool" where
  "lead2 a b \<longleftrightarrow> cont 194 223 a \<and> cont 128 191 b"

definition lead3 :: "char \<Rightarrow> char \<Rightarrow> bool" where
  "lead3 a b \<longleftrightarrow>
     byte a = 224 \<and> cont 160 191 b \<or> cont 225 236 a \<and> cont 128 191 b
     \<or> byte a = 237 \<and> cont 128 159 b \<or> cont 238 239 a \<and> cont 128 191 b"

definition lead4 :: "char \<Rightarrow> char \<Rightarrow> bool" where
  "lead4 a b \<longleftrightarrow>
     byte a = 240 \<and> cont 144 191 b \<or> cont 241 243 a \<and> cont 128 191 b
     \<or> byte a = 244 \<and> cont 128 143 b"

fun decode_rune :: "go_string \<Rightarrow> (int \<times> nat) option" where
  "decode_rune (a # b # s) =
     (if lead2 a b then Some ((byte a mod 32) * 64 + byte b mod 64, 2)
      else (case s of
        c # s' \<Rightarrow>
          if lead3 a b \<and> cont 128 191 c
          then Some (((byte a mod 16) * 64 + byte b mod 64) * 64 + byte c mod 64, 3)
          else (case s' of
            d # _ \<Rightarrow>
              if lead4 a b \<and> cont 128 191 c \<and> cont 128 191 d
              then Some ((((byte a mod 8) * 64 + byte b mod 64) * 64 + byte c mod 64) * 64
                         + byte d mod 64, 4)
              else None
          | [] \<Rightarrow> None)
      | [] \<Rightarrow> None))"
| "decode_rune _ = None"

lemma lead_high:
  "lead2 a b \<Longrightarrow> 128 \<le> byte a \<and> 128 \<le> byte b"
  "lead3 a b \<Longrightarrow> 128 \<le> byte a \<and> 128 \<le> byte b"
  "lead4 a b \<Longrightarrow> 128 \<le> byte a \<and> 128 \<le> byte b"
  by (auto simp: lead2_def lead3_def lead4_def cont_def)

lemma cont_high: "cont 128 191 c \<Longrightarrow> 128 \<le> byte c"
  by (simp add: cont_def)

lemma decode_rune_width: "decode_rune s = Some (r, w) \<Longrightarrow> 1 < w \<and> w \<le> length s"
  by (cases s rule: decode_rune.cases)
     (auto split: if_splits list.splits)

definition hex_digit :: "int \<Rightarrow> char" where
  "hex_digit n = (if n < 10 then char_of (48 + n) else char_of (87 + n))"

primrec hex_fixed :: "nat \<Rightarrow> int \<Rightarrow> go_string" where
  "hex_fixed 0 n = []"
| "hex_fixed (Suc k) n = hex_fixed k (n div 16) @ [hex_digit (n mod 16)]"

text \<open>
  \<open>strconv.Quote\<close>, which the \<open>%q\<close> verb calls. The standard library's table of printable
  runes from 128 up is the argument \<open>is_print\<close>.
\<close>

definition quote_ascii :: "char \<Rightarrow> go_string" where
  "quote_ascii c =
     (if c = CHR 0x22 then [CHR 0x5C, CHR 0x22]
      else if c = CHR 0x5C then [CHR 0x5C, CHR 0x5C]
      else if 32 \<le> byte c \<and> byte c < 127 then [c]
      else if byte c = 7 then CHR 0x5C # ''a''
      else if byte c = 8 then CHR 0x5C # ''b''
      else if byte c = 12 then CHR 0x5C # ''f''
      else if byte c = 10 then CHR 0x5C # ''n''
      else if byte c = 13 then CHR 0x5C # ''r''
      else if byte c = 9 then CHR 0x5C # ''t''
      else if byte c = 11 then CHR 0x5C # ''v''
      else CHR 0x5C # CHR ''x'' # hex_fixed 2 (byte c))"

function quote_body :: "(int \<Rightarrow> bool) \<Rightarrow> go_string \<Rightarrow> go_string" where
  "quote_body is_print [] = []"
| "quote_body is_print (c # s) =
     (if is_ascii c then quote_ascii c @ quote_body is_print s
      else (case decode_rune (c # s) of
        None \<Rightarrow> CHR 0x5C # CHR ''x'' # hex_fixed 2 (byte c) @ quote_body is_print s
      | Some (r, w) \<Rightarrow>
          (if is_print r then take w (c # s)
           else if r < 65536 then CHR 0x5C # CHR ''u'' # hex_fixed 4 r
           else CHR 0x5C # CHR ''U'' # hex_fixed 8 r)
          @ quote_body is_print (drop (w - 1) s)))"
  by pat_completeness auto
termination
  by (relation "measure (\<lambda>(_, s). length s)") (auto dest: decode_rune_width)

definition quote :: "(int \<Rightarrow> bool) \<Rightarrow> go_string \<Rightarrow> go_string" where
  "quote is_print s = CHR 0x22 # quote_body is_print s @ [CHR 0x22]"

text \<open>A quoted string never holds a raw line feed, so a quoted value stays on its line.\<close>

lemma hex_digit_not_lf: "0 \<le> n \<Longrightarrow> n < 16 \<Longrightarrow> hex_digit n \<noteq> CHR 0x0A"
proof
  assume n: "0 \<le> n" "n < 16" and lf: "hex_digit n = CHR 0x0A"
  from n have "byte (hex_digit n) = (if n < 10 then 48 + n else 87 + n)"
    by (simp add: hex_digit_def byte_def)
  with lf n show False by (simp add: byte_def split: if_splits)
qed

lemma hex_fixed_no_lf: "CHR 0x0A \<notin> set (hex_fixed k n)"
  by (induction k arbitrary: n) (auto simp: hex_digit_not_lf [symmetric])

lemma decode_rune_high:
  "decode_rune s = Some (r, w) \<Longrightarrow> c \<in> set (take w s) \<Longrightarrow> 128 \<le> byte c"
  by (cases s rule: decode_rune.cases)
     (auto dest: lead_high cont_high split: if_splits list.splits)

lemma quote_ascii_no_lf: "CHR 0x0A \<notin> set (quote_ascii c)"
  using hex_fixed_no_lf by (auto simp: quote_ascii_def byte_def)

lemma quote_body_no_lf: "CHR 0x0A \<notin> set (quote_body is_print s)"
proof (induction is_print s rule: quote_body.induct)
  case (2 is_print c s)
  have low: "\<not> 128 \<le> byte (CHR 0x0A)" by (simp add: byte_def)
  show ?case
  proof (cases "is_ascii c")
    case True
    with 2 quote_ascii_no_lf show ?thesis by simp
  next
    case False
    then have c: "c \<noteq> CHR 0x0A" by (auto simp: is_ascii_def byte_def)
    show ?thesis
    proof (cases "decode_rune (c # s)")
      case None
      with 2 False c hex_fixed_no_lf show ?thesis by simp
    next
      case (Some rw)
      obtain r w where rw: "rw = (r, w)" by fastforce
      with Some False have "CHR 0x0A \<notin> set (quote_body is_print (drop (w - 1) s))"
        using 2(3) by simp
      moreover have "CHR 0x0A \<notin> set (take w (c # s))"
        using decode_rune_high Some rw low by blast
      ultimately show ?thesis
        using Some rw False hex_fixed_no_lf by simp
    qed
  qed
qed simp

lemma quote_no_lf: "CHR 0x0A \<notin> set (quote is_print s)"
  using quote_body_no_lf by (simp add: quote_def)

lemma join_no_lf:
  "CHR 0x0A \<notin> set sep \<Longrightarrow> \<forall>w \<in> set ws. CHR 0x0A \<notin> set w \<Longrightarrow> CHR 0x0A \<notin> set (join sep ws)"
  by (induction sep ws rule: join.induct) auto

lemma itoa_no_lf: "CHR 0x0A \<notin> set (itoa n)"
  by (auto dest: itoa_chars simp: is_digit_def byte_def)

end
