(* ===== verification/Go_Time.thy ===== *)
theory Go_Time
  imports Go_Strings
begin

text \<open>
  Go durations: a signed 64-bit count of nanoseconds, its parser
  (\<open>time.ParseDuration\<close>) and its printer (\<open>Duration.String\<close>). The parser's arithmetic is
  on \<open>uint64\<close>, so the running sum wraps at \<open>2^64\<close> as it does in Go, and the fractional part
  goes through IEEE double precision as the library's code does.
\<close>

section \<open>Units\<close>

type_synonym duration = int

definition second :: duration where "second = 1000000000"
definition minute :: duration where "minute = 60000000000"

text \<open>\<open>Duration.Milliseconds\<close>: Go's integer division truncates towards zero.\<close>

definition milliseconds :: "duration \<Rightarrow> int" where
  "milliseconds d = (if d < 0 then - ((- d) div 1000000) else d div 1000000)"

definition unit_map :: "(go_string \<times> int) list" where
  "unit_map =
     [(''ns'', 1), (''us'', 1000), (CHR 0xC2 # CHR 0xB5 # ''s'', 1000),
      (CHR 0xCE # CHR 0xBC # ''s'', 1000), (''ms'', 1000000), (''s'', 1000000000),
      (''m'', 60000000000), (''h'', 3600000000000)]"

section \<open>Double precision\<close>

text \<open>
  A positive double is \<open>m * 2^(-k)\<close> with \<open>m \<le> 2^53\<close>. \<open>fl_round a b\<close> is the double
  nearest to \<open>a/b\<close>, ties to even; the exponents met here are far from the limits of the
  format.
\<close>

function bit_count :: "int \<Rightarrow> int" where
  "bit_count n = (if n \<le> 0 then 0 else 1 + bit_count (n div 2))"
  by pat_completeness auto
termination
  by (relation "measure nat") auto

declare bit_count.simps [simp del]

definition fl_at :: "int \<Rightarrow> int \<Rightarrow> int \<Rightarrow> int" where
  "fl_at a b k =
     (let num = a * 2 ^ nat k; den = b * 2 ^ nat (- k); m = num div den; r = num mod den
      in if 2 * r > den \<or> (2 * r = den \<and> odd m) then m + 1 else m)"

definition fl_round :: "int \<Rightarrow> int \<Rightarrow> int \<times> int" where
  "fl_round a b =
     (if a = 0 then (0, 0)
      else let k = 53 + bit_count b - bit_count a;
               k' = (if a * 2 ^ nat k div (b * 2 ^ nat (- k)) \<ge> 9007199254740992
                     then k - 1 else k)
           in (fl_at a b k', k'))"

definition fl_mul :: "int \<times> int \<Rightarrow> int \<times> int \<Rightarrow> int \<times> int" where
  "fl_mul x y =
     (let m = fst x * fst y; k = snd x + snd y
      in fl_round (m * 2 ^ nat (- k)) (2 ^ nat k))"

definition fl_trunc :: "int \<times> int \<Rightarrow> int" where
  "fl_trunc x = fst x * 2 ^ nat (- snd x) div 2 ^ nat (snd x)"

text \<open>\<open>uint64(float64(f) * (float64(unit) / scale))\<close>\<close>

definition frac_nanos :: "int \<Rightarrow> int \<Rightarrow> int \<Rightarrow> int" where
  "frac_nanos f unit scale = fl_trunc (fl_mul (fl_round f 1) (fl_round unit scale))"

section \<open>Parsing\<close>

fun leading_int :: "int \<Rightarrow> go_string \<Rightarrow> (int \<times> go_string) option" where
  "leading_int x [] = Some (x, [])"
| "leading_int x (c # s) =
     (if \<not> is_digit c then Some (x, c # s)
      else if x > 922337203685477580 then None
      else let y = 10 * x + digit_val c in
           if y > 9223372036854775808 then None else leading_int y s)"

fun leading_fraction ::
  "int \<Rightarrow> int \<Rightarrow> bool \<Rightarrow> go_string \<Rightarrow> int \<times> int \<times> go_string" where
  "leading_fraction x scale ovf [] = (x, scale, [])"
| "leading_fraction x scale ovf (c # s) =
     (if \<not> is_digit c then (x, scale, c # s)
      else if ovf \<or> x > 922337203685477580 then leading_fraction x scale True s
      else let y = 10 * x + digit_val c in
           if y > 9223372036854775808 then leading_fraction x scale True s
           else leading_fraction y (scale * 10) False s)"

definition fraction :: "bool \<Rightarrow> go_string \<Rightarrow> int \<times> int \<times> go_string" where
  "fraction dot s = (if dot then leading_fraction 0 1 False s else (0, 1, s))"

definition unit_byte :: "char \<Rightarrow> bool" where
  "unit_byte c \<longleftrightarrow> \<not> (c = CHR ''.'' \<or> is_digit c)"

text \<open>One number with its unit: the nanoseconds and the rest of the text.\<close>

definition parse_component :: "go_string \<Rightarrow> (int \<times> go_string) option" where
  "parse_component s =
     (if s = [] \<or> unit_byte (hd s) then None
      else (case leading_int 0 s of
        None \<Rightarrow> None
      | Some (v, s1) \<Rightarrow>
          let pre = (length s1 \<noteq> length s);
              dot = (s1 \<noteq> [] \<and> hd s1 = CHR ''.'');
              s2 = (if dot then tl s1 else s1);
              (f, scale, s3) = fraction dot s2;
              post = (length s3 \<noteq> length s2);
              u = takeWhile unit_byte s3
          in if \<not> pre \<and> \<not> post then None
             else if u = [] then None
             else (case map_of unit_map u of
               None \<Rightarrow> None
             | Some unit \<Rightarrow>
                 if v > 9223372036854775808 div unit then None
                 else let w = v * unit + (if f > 0 then frac_nanos f unit scale else 0) in
                      if w > 9223372036854775808 then None
                      else Some (w, dropWhile unit_byte s3))))"

lemma leading_int_length: "leading_int x s = Some (v, r) \<Longrightarrow> length r \<le> length s"
  by (induction x s rule: leading_int.induct) (auto simp: Let_def split: if_splits)

lemma leading_fraction_length:
  "leading_fraction x sc b s = (f, k, r) \<Longrightarrow> length r \<le> length s"
  by (induction x sc b s rule: leading_fraction.induct)
     (auto simp: Let_def split: if_splits)

lemma dropWhile_less: "takeWhile P s \<noteq> [] \<Longrightarrow> length (dropWhile P s) < length s"
  by (cases s) (auto simp: length_dropWhile_le le_imp_less_Suc split: if_splits)

lemma fraction_length: "fraction dot s = (f, k, r) \<Longrightarrow> length r \<le> length s"
  by (auto simp: fraction_def dest: leading_fraction_length split: if_splits)

lemma parse_component_length:
  assumes "parse_component s = Some (w, r)"
  shows "length r < length s"
proof -
  from assms obtain v s1 where li: "leading_int 0 s = Some (v, s1)"
    by (auto simp: parse_component_def split: if_splits option.splits)
  define dot where "dot = (s1 \<noteq> [] \<and> hd s1 = CHR ''.'')"
  define s2 where "s2 = (if dot then tl s1 else s1)"
  obtain f k s3 where lf: "fraction dot s2 = (f, k, s3)"
    by (metis prod_cases3)
  have "length s1 \<le> length s" using li by (rule leading_int_length)
  moreover have "length s2 \<le> length s1" by (simp add: s2_def)
  moreover have "length s3 \<le> length s2" using lf by (rule fraction_length)
  moreover have "takeWhile unit_byte s3 \<noteq> [] \<and> r = dropWhile unit_byte s3"
    using assms li lf
    unfolding parse_component_def dot_def [symmetric] s2_def [symmetric] Let_def
    by (auto simp only: option.simps prod.simps if_False if_True dot_def [symmetric]
          s2_def [symmetric] split: if_splits option.splits)
  ultimately show ?thesis using dropWhile_less [of unit_byte s3] by auto
qed

function duration_loop :: "int \<Rightarrow> go_string \<Rightarrow> int option" where
  "duration_loop d s =
     (if s = [] then Some d
      else (case parse_component s of
        None \<Rightarrow> None
      | Some (v, r) \<Rightarrow>
          let d' = (d + v) mod 18446744073709551616 in
          if d' > 9223372036854775808 then None else duration_loop d' r))"
  by pat_completeness auto
termination
  by (relation "measure (\<lambda>(d, s). length s)") (auto dest: parse_component_length)

declare duration_loop.simps [simp del]

text \<open>\<open>time.ParseDuration\<close>; \<open>None\<close> is its error.\<close>

definition parse_duration :: "go_string \<Rightarrow> duration option" where
  "parse_duration s0 =
     (let (neg, s) = split_sign s0 in
      if s = ''0'' then Some 0
      else if s = [] then None
      else (case duration_loop 0 s of
        None \<Rightarrow> None
      | Some d \<Rightarrow>
          if neg then Some (- d)
          else if d > 9223372036854775807 then None
          else Some d))"

lemma duration_loop_bound:
  "duration_loop d s = Some r \<Longrightarrow> 0 \<le> d \<Longrightarrow> d \<le> 9223372036854775808 \<Longrightarrow>
     0 \<le> r \<and> r \<le> 9223372036854775808"
proof (induction d s rule: duration_loop.induct)
  case (1 d s)
  show ?case
  proof (cases "s = []")
    case True
    with 1(2,3,4) show ?thesis by (simp add: duration_loop.simps)
  next
    case False
    with 1(2) obtain a b where pc: "parse_component s = Some (a, b)"
      and small: "\<not> 9223372036854775808 < (d + a) mod 18446744073709551616"
      and rest: "duration_loop ((d + a) mod 18446744073709551616) b = Some r"
      by (subst (asm) duration_loop.simps) (auto simp: Let_def split: if_splits option.splits)
    from 1(1) [OF False pc refl refl small rest] small show ?thesis by simp
  qed
qed

lemma parse_duration_int64: "parse_duration s = Some d \<Longrightarrow> int64 d"
  by (auto simp: parse_duration_def int64_def Let_def dest!: duration_loop_bound
      split: prod.splits if_splits option.splits)

section \<open>Printing\<close>

fun fmt_frac :: "nat \<Rightarrow> int \<Rightarrow> bool \<Rightarrow> go_string \<Rightarrow> go_string \<times> int" where
  "fmt_frac 0 v print acc = ((if print then CHR ''.'' # acc else acc), v)"
| "fmt_frac (Suc n) v print acc =
     (let digit = v mod 10; print' = (print \<or> digit \<noteq> 0) in
      fmt_frac n (v div 10) print' (if print' then digit_char digit # acc else acc))"

definition duration_small :: "int \<Rightarrow> go_string" where
  "duration_small u =
     (if u = 0 then ''0s''
      else let (prec, suffix) =
             (if u < 1000 then (0, ''ns'')
              else if u < 1000000 then (3, CHR 0xC2 # CHR 0xB5 # ''s'')
              else (6, ''ms''));
             (frac, v) = fmt_frac prec u False suffix
           in nat_digits v @ frac)"

definition duration_large :: "int \<Rightarrow> go_string" where
  "duration_large u =
     (let (frac, secs) = fmt_frac 9 u False ''s'';
          s_part = nat_digits (secs mod 60) @ frac;
          mins = secs div 60;
          hours = mins div 60
      in if mins = 0 then s_part
         else let m_part = nat_digits (mins mod 60) @ ''m'' @ s_part
              in if hours = 0 then m_part else nat_digits hours @ ''h'' @ m_part)"

definition duration_string :: "duration \<Rightarrow> go_string" where
  "duration_string d =
     (let u = abs d;
          body = (if u < 1000000000 then duration_small u else duration_large u)
      in if d < 0 then CHR ''-'' # body else body)"

lemma nat_digits_no_lf: "0 \<le> n \<Longrightarrow> CHR 0x0A \<notin> set (nat_digits n)"
  using nat_digits_digits [of n] by (auto simp: is_digit_def byte_def)

lemma fmt_frac_no_lf:
  "CHR 0x0A \<notin> set acc \<Longrightarrow> 0 \<le> v \<Longrightarrow>
     CHR 0x0A \<notin> set (fst (fmt_frac n v p acc)) \<and> 0 \<le> snd (fmt_frac n v p acc)"
proof (induction n arbitrary: v p acc)
  case (Suc n)
  have "digit_char (v mod 10) \<noteq> CHR 0x0A"
    using byte_digit_char [of "v mod 10"] by (auto simp: byte_def)
  with Suc show ?case by (simp add: Let_def)
qed auto

lemma duration_small_no_lf: "0 \<le> u \<Longrightarrow> CHR 0x0A \<notin> set (duration_small u)"
  by (auto simp: duration_small_def Let_def nat_digits_no_lf fmt_frac_no_lf split_beta)

lemma duration_large_no_lf: "0 \<le> u \<Longrightarrow> CHR 0x0A \<notin> set (duration_large u)"
  using fmt_frac_no_lf [of "''s''" u 9 False]
  by (auto simp: duration_large_def Let_def nat_digits_no_lf split_beta
        pos_imp_zdiv_nonneg_iff)

lemma duration_string_no_lf: "CHR 0x0A \<notin> set (duration_string d)"
  using duration_small_no_lf [of "abs d"] duration_large_no_lf [of "abs d"]
  by (auto simp: duration_string_def Let_def)

end
