(* ===== verification/Config_Parse.thy ===== *)
theory Config_Parse
  imports Go_Time
begin

text \<open>
  \<open>internal/config/parse.go\<close> and \<open>internal/config/errors.go\<close>: the collector that reads
  environment variables and accumulates every problem, and the error that reports them.
  The process environment is a partial map from names to values. A method on the
  collector takes it as an argument and returns it updated; the three getters that can
  fail return the value and the collector.
\<close>

type_synonym env = "go_string \<rightharpoonup> go_string"

definition env_prefix :: go_string where
  "env_prefix = ''PULSEFLOW_''"

record problem =
  variable :: go_string
  got :: go_string
  want :: go_string

record collector =
  problems :: "problem list"

definition problem_string :: "(int \<Rightarrow> bool) \<Rightarrow> problem \<Rightarrow> go_string" where
  "problem_string is_print p =
     variable p @ '': got '' @ quote is_print (got p) @ '', '' @ want p"

definition add_problem ::
  "collector \<Rightarrow> go_string \<Rightarrow> go_string \<Rightarrow> go_string \<Rightarrow> collector" where
  "add_problem c name g w =
     c\<lparr>problems := problems c @ [\<lparr>variable = env_prefix @ name, got = g, want = w\<rparr>]\<rparr>"

text \<open>
  A problem whose name and expectation hold no line feed renders on one line: the value
  received is quoted.
\<close>

definition one_line :: "problem \<Rightarrow> bool" where
  "one_line p \<longleftrightarrow> CHR 0x0A \<notin> set (variable p) \<and> CHR 0x0A \<notin> set (want p)"

section \<open>Getters\<close>

definition lookup :: "env \<Rightarrow> go_string \<Rightarrow> go_string option" where
  "lookup env name =
     (case env (env_prefix @ name) of
        None \<Rightarrow> None
      | Some v \<Rightarrow> if v = '''' then None else Some v)"

definition get_str :: "env \<Rightarrow> go_string \<Rightarrow> go_string \<Rightarrow> go_string" where
  "get_str env name def = (case lookup env name of Some v \<Rightarrow> v | None \<Rightarrow> def)"

definition get_int :: "env \<Rightarrow> collector \<Rightarrow> go_string \<Rightarrow> int \<Rightarrow> int \<times> collector" where
  "get_int env c name def =
     (case lookup env name of
        None \<Rightarrow> (def, c)
      | Some v \<Rightarrow> (case atoi v of
          None \<Rightarrow> (def, add_problem c name v ''must be an integer'')
        | Some n \<Rightarrow> (n, c)))"

definition duration_want :: go_string where
  \<open>duration_want = ''must be a duration such as "30s", "1m", or "500ms"''\<close>

definition get_duration ::
  "env \<Rightarrow> collector \<Rightarrow> go_string \<Rightarrow> duration \<Rightarrow> duration \<times> collector" where
  "get_duration env c name def =
     (case lookup env name of
        None \<Rightarrow> (def, c)
      | Some v \<Rightarrow> (case parse_duration v of
          None \<Rightarrow> (def, add_problem c name v duration_want)
        | Some d \<Rightarrow> (d, c)))"

definition list_entries :: "go_string \<Rightarrow> go_string list" where
  "list_entries v = filter (\<lambda>p. p \<noteq> '''') (map trim_space (split_on CHR '','' v))"

definition get_list ::
  "env \<Rightarrow> collector \<Rightarrow> go_string \<Rightarrow> go_string list \<Rightarrow> go_string list \<times> collector" where
  "get_list env c name def =
     (case lookup env name of
        None \<Rightarrow> (def, c)
      | Some v \<Rightarrow>
          let out = list_entries v in
          if out = [] then (def, add_problem c name v ''must contain at least one entry'')
          else (out, c))"

definition plural :: "nat \<Rightarrow> go_string \<Rightarrow> go_string \<Rightarrow> go_string" where
  "plural n one many = (if n = 1 then one else many)"

section \<open>The contract of a getter\<close>

text \<open>
  The three fallible getters share a contract: an unset variable gives the default, a
  well-formed value is parsed, and a malformed one is reported once, under its full name
  and with the value received, while the default stands in so that later rules can still
  run. The parser is what distinguishes them.
\<close>

definition parse_fails :: "(go_string \<Rightarrow> 'a option) \<Rightarrow> env \<Rightarrow> go_string \<Rightarrow> bool" where
  "parse_fails parse env name =
     (case lookup env name of None \<Rightarrow> False | Some v \<Rightarrow> parse v = None)"

definition parsed_value ::
  "(go_string \<Rightarrow> 'a option) \<Rightarrow> env \<Rightarrow> go_string \<Rightarrow> 'a \<Rightarrow> 'a" where
  "parsed_value parse env name def =
     (case lookup env name of None \<Rightarrow> def
      | Some v \<Rightarrow> (case parse v of None \<Rightarrow> def | Some x \<Rightarrow> x))"

locale getter =
  fixes get :: "env \<Rightarrow> collector \<Rightarrow> go_string \<Rightarrow> 'a \<Rightarrow> 'a \<times> collector"
    and parse :: "go_string \<Rightarrow> 'a option"
    and expected :: go_string
  assumes unset: "lookup env name = None \<Longrightarrow> get env c name def = (def, c)"
    and well_formed:
      "lookup env name = Some v \<Longrightarrow> parse v = Some x \<Longrightarrow> get env c name def = (x, c)"
    and malformed:
      "lookup env name = Some v \<Longrightarrow> parse v = None \<Longrightarrow>
         get env c name def = (def, add_problem c name v expected)"
    and expected_line: "CHR 0x0A \<notin> set expected"
begin

lemma get_value: "fst (get env c name def) = parsed_value parse env name def"
  by (cases "lookup env name"; cases "parse (the (lookup env name))")
     (auto simp: parsed_value_def unset well_formed malformed)

lemma get_problems:
  "problems (snd (get env c name def)) =
     problems c @ (if parse_fails parse env name
       then [\<lparr>variable = env_prefix @ name, got = the (lookup env name), want = expected\<rparr>]
       else [])"
  by (cases "lookup env name"; cases "parse (the (lookup env name))")
     (auto simp: parse_fails_def unset well_formed malformed add_problem_def)

lemma get_names:
  "map variable (problems (snd (get env c name def))) =
     map variable (problems c) @ (if \<not> parse_fails parse env name then [] else [env_prefix @ name])"
  by (simp add: get_problems)

lemma get_one_line:
  "CHR 0x0A \<notin> set name \<Longrightarrow> list_all one_line (problems c) \<Longrightarrow>
     list_all one_line (problems (snd (get env c name def)))"
  by (simp add: get_problems one_line_def expected_line env_prefix_def)

lemma get_same_env:
  "lookup env name = lookup env' name \<Longrightarrow> get env c name def = get env' c name def"
  by (cases "lookup env' name"; cases "parse (the (lookup env' name))")
     (auto simp: unset well_formed malformed)

end

interpretation int_getter: getter get_int atoi "''must be an integer''"
  by unfold_locales (auto simp: get_int_def)

interpretation duration_getter: getter get_duration parse_duration duration_want
  by unfold_locales (auto simp: get_duration_def duration_want_def)

definition parse_list :: "go_string \<Rightarrow> go_string list option" where
  "parse_list v = (if list_entries v = [] then None else Some (list_entries v))"

interpretation list_getter: getter get_list parse_list "''must contain at least one entry''"
  by unfold_locales (auto simp: get_list_def parse_list_def Let_def split: if_splits)

lemma lookup_nonempty: "lookup env name = Some v \<Longrightarrow> v \<noteq> ''''"
  by (auto simp: lookup_def split: option.splits if_splits)

lemma list_entries_nonblank: "w \<in> set (list_entries v) \<Longrightarrow> w \<noteq> ''''"
  by (auto simp: list_entries_def)

lemma parsed_list_nonempty: "def \<noteq> [] \<Longrightarrow> parsed_value parse_list env name def \<noteq> []"
  by (auto simp: parsed_value_def parse_list_def split: option.splits)

section \<open>The validation error\<close>

datatype validation_error = ValidationError (error_problems: "problem list")

definition error_message :: "(int \<Rightarrow> bool) \<Rightarrow> validation_error \<Rightarrow> go_string" where
  "error_message is_print e =
     (let ps = error_problems e; n = length ps in
      if n = 0 then ''configuration invalid''
      else ''configuration invalid ('' @ itoa (int n) @ '' '' @ plural n ''error'' ''errors''
           @ ''):'' @ concat (map (\<lambda>p. CHR 0x0A # ''  '' @ problem_string is_print p) ps))"

definition error_fields :: "validation_error \<Rightarrow> go_string list" where
  "error_fields e = map variable (error_problems e)"

definition error_messages :: "(int \<Rightarrow> bool) \<Rightarrow> validation_error \<Rightarrow> go_string list" where
  "error_messages is_print e = map (problem_string is_print) (error_problems e)"

lemma problem_string_no_lf:
  "one_line p \<Longrightarrow> CHR 0x0A \<notin> set (problem_string is_print p)"
  using quote_no_lf by (auto simp: one_line_def problem_string_def)

lemma count_zero: "c \<notin> set s \<Longrightarrow> length (filter ((=) c) s) = 0"
  by (auto simp: filter_empty_conv)

lemma count_lf_lines:
  "\<forall>p \<in> set ps. one_line p \<Longrightarrow>
     length (filter ((=) CHR 0x0A)
       (concat (map (\<lambda>p. CHR 0x0A # ''  '' @ problem_string is_print p) ps))) = length ps"
proof (induction ps)
  case (Cons p ps)
  then have "length (filter ((=) CHR 0x0A) (problem_string is_print p)) = 0"
    using problem_string_no_lf by (intro count_zero) auto
  with Cons show ?case by simp
qed simp

end
