(* ===== verification/Go_Net.thy ===== *)
theory Go_Net
  imports Go_Strings
begin

text \<open>
  \<open>net.SplitHostPort\<close>, \<open>net.JoinHostPort\<close>, and the names of header fields. The program looks
  at whether splitting failed, never at the error's text, so the error is \<open>None\<close>.
\<close>

primrec index_byte :: "char \<Rightarrow> go_string \<Rightarrow> nat option" where
  "index_byte c [] = None"
| "index_byte c (x # s) = (if x = c then Some 0 else map_option Suc (index_byte c s))"

definition last_index_byte :: "char \<Rightarrow> go_string \<Rightarrow> nat option" where
  "last_index_byte c s = map_option (\<lambda>k. length s - 1 - k) (index_byte c (rev s))"

definition split_host_port :: "go_string \<Rightarrow> (go_string \<times> go_string) option" where
  "split_host_port s =
     (case last_index_byte CHR '':'' s of
        None \<Rightarrow> None
      | Some i \<Rightarrow>
          let checked = (\<lambda>host j k.
                if CHR ''['' \<in> set (drop j s) then None
                else if CHR '']'' \<in> set (drop k s) then None
                else Some (host, drop (i + 1) s))
          in if hd s = CHR ''[''
             then (case index_byte CHR '']'' s of
                     None \<Rightarrow> None
                   | Some e \<Rightarrow>
                       if e + 1 = length s then None
                       else if e + 1 = i then checked (take (e - 1) (drop 1 s)) 1 (e + 1)
                       else None)
             else let host = take i s in
                  if CHR '':'' \<in> set host then None else checked host 0 0)"

definition join_host_port :: "go_string \<Rightarrow> go_string \<Rightarrow> go_string" where
  "join_host_port host port =
     (if CHR '':'' \<in> set host then ''['' @ host @ '']:'' @ port else host @ '':'' @ port)"

lemma index_byte_None: "index_byte c s = None \<longleftrightarrow> c \<notin> set s"
  by (induction s) auto

lemma index_byte_skip: "c \<notin> set p \<Longrightarrow> index_byte c (p @ c # s) = Some (length p)"
  by (induction p) auto

lemma last_index_byte_skip: "c \<notin> set s \<Longrightarrow> last_index_byte c (p @ c # s) = Some (length p)"
  using index_byte_skip [of c "rev s" "rev p"] by (simp add: last_index_byte_def)

text \<open>
  Splitting undoes joining, for a host without brackets and a port without a colon or
  brackets; an IPv6 literal goes through the bracketed form.
\<close>

lemma split_join_host_port:
  assumes "CHR ''['' \<notin> set host" "CHR '']'' \<notin> set host"
    and "CHR '':'' \<notin> set port" "CHR ''['' \<notin> set port" "CHR '']'' \<notin> set port"
  shows "split_host_port (join_host_port host port) = Some (host, port)"
proof (cases "CHR '':'' \<in> set host")
  case True
  define s where "s = (CHR ''['' # host @ [CHR '']'']) @ CHR '':'' # port"
  have s: "join_host_port host port = s"
    using True by (simp add: join_host_port_def s_def)
  have i: "last_index_byte CHR '':'' s = Some (length host + 2)"
    using last_index_byte_skip [OF assms(3), of "CHR ''['' # host @ [CHR '']'']"]
    by (simp add: s_def)
  have e: "index_byte CHR '']'' s = Some (length host + 1)"
    using index_byte_skip [of "CHR '']''" "CHR ''['' # host" "CHR '':'' # port"] assms(2)
    by (simp add: s_def)
  show ?thesis
    unfolding s split_host_port_def using assms i e by (simp add: s_def)
next
  case False
  have i: "last_index_byte CHR '':'' (host @ CHR '':'' # port) = Some (length host)"
    using assms(3) by (rule last_index_byte_skip)
  have "hd (host @ CHR '':'' # port) \<noteq> CHR ''[''"
    using assms(1) by (cases host) auto
  with False assms i show ?thesis
    by (simp add: split_host_port_def join_host_port_def)
qed

lemma split_host_port_no_colon: "CHR '':'' \<notin> set s \<Longrightarrow> split_host_port s = None"
  by (simp add: split_host_port_def last_index_byte_def index_byte_None [THEN iffD2])

section \<open>Header fields\<close>

text \<open>
  \<open>textproto.CanonicalMIMEHeaderKey\<close>: the first letter and every letter after a hyphen in
  upper case, the others in lower case; a name with a byte that is not allowed in one stays
  as it is.
\<close>

definition upper_byte :: "char \<Rightarrow> char" where
  "upper_byte c = (if 97 \<le> byte c \<and> byte c \<le> 122 then char_of (byte c - 32) else c)"

definition header_byte :: "char \<Rightarrow> bool" where
  "header_byte c \<longleftrightarrow> is_digit c \<or> 65 \<le> byte c \<and> byte c \<le> 90 \<or> 97 \<le> byte c \<and> byte c \<le> 122 \<or>
     c \<in> set ''!#$%&*+-.^_`|~'' \<or> c = CHR 0x27"

fun canonical_letters :: "bool \<Rightarrow> go_string \<Rightarrow> go_string" where
  "canonical_letters up [] = []"
| "canonical_letters up (c # s) =
     (if up then upper_byte c else lower_byte c) # canonical_letters (c = CHR ''-'') s"

definition canonical_key :: "go_string \<Rightarrow> go_string" where
  "canonical_key s = (if list_all header_byte s then canonical_letters True s else s)"

text \<open>
  \<open>Header.Get\<close> on the fields of a request in the order of the wire, whose names the server
  puts in canonical form as it reads them: the first value of the name, empty without one.
\<close>

fun header_get :: "(go_string \<times> go_string) list \<Rightarrow> go_string \<Rightarrow> go_string" where
  "header_get [] key = ''''"
| "header_get ((k, v) # fields) key =
     (if canonical_key k = canonical_key key then v else header_get fields key)"

lemma byte_char_of: "0 \<le> n \<Longrightarrow> n < 256 \<Longrightarrow> byte (char_of n) = n"
  by (simp add: byte_def)

lemma byte_inject: "byte c = byte d \<longleftrightarrow> c = d"
  by (simp add: byte_def)

lemma byte_lower_byte: "byte (lower_byte c) = (if 65 \<le> byte c \<and> byte c \<le> 90 then byte c + 32 else byte c)"
  by (simp add: lower_byte_def byte_char_of)

lemma byte_upper_byte: "byte (upper_byte c) = (if 97 \<le> byte c \<and> byte c \<le> 122 then byte c - 32 else byte c)"
  by (simp add: upper_byte_def byte_char_of)

lemma case_folding:
  "upper_byte (lower_byte c) = upper_byte c" "lower_byte (lower_byte c) = lower_byte c"
  "lower_byte c = CHR ''-'' \<longleftrightarrow> c = CHR ''-''"
  by (auto simp: byte_lower_byte byte_upper_byte simp flip: byte_inject) (auto simp: byte_def)

lemma header_byte_lower: "header_byte (lower_byte c) = header_byte c"
proof (cases "65 \<le> byte c \<and> byte c \<le> 90")
  case True
  then show ?thesis by (simp add: header_byte_def byte_lower_byte)
next
  case False
  then have "lower_byte c = c" by (auto simp: lower_byte_def)
  then show ?thesis by simp
qed

lemma canonical_letters_lower: "canonical_letters up (map lower_byte s) = canonical_letters up s"
  by (induction s arbitrary: up) (simp_all add: case_folding)

text \<open>The canonical form does not depend on the case of a name's letters.\<close>

lemma canonical_key_lower:
  assumes "map lower_byte s = map lower_byte t" "list_all header_byte t"
  shows "canonical_key s = canonical_key t"
proof -
  have "list_all header_byte (map lower_byte s) = list_all header_byte s" for s
    by (induction s) (simp_all add: header_byte_lower)
  then have "list_all header_byte s" using assms by metis
  with assms canonical_letters_lower [of True s] canonical_letters_lower [of True t] show ?thesis
    by (simp add: canonical_key_def)
qed

lemma header_get_first:
  "\<forall>(k, v) \<in> set before. canonical_key k \<noteq> canonical_key key \<Longrightarrow> canonical_key name = canonical_key key \<Longrightarrow>
     header_get (before @ (name, given) # after) key = given"
  by (induction before) auto

end
