(* ===== verification/Config_Validate.thy ===== *)
theory Config_Validate
  imports Config_Parse Go_Net
begin

text \<open>
  \<open>internal/config/validate.go\<close>: the semantic rules over a loaded configuration. Every
  rule satisfies one contract (a value that is fine leaves the collector alone, any other
  adds exactly one problem under the rule's variable), stated as the locale \<open>rule\<close>;
  \<open>validate\<close> runs all rules in order, so what it adds is the list of failed rules.
\<close>

section \<open>The configuration\<close>

record config =
  cfg_service_name :: go_string
  cfg_version :: go_string
  cfg_environment :: go_string
  cfg_http_port :: int
  cfg_shutdown_grace_period :: duration
  cfg_log_level :: go_string
  cfg_kafka_brokers :: "go_string list"
  cfg_clickhouse_addr :: go_string
  cfg_clickhouse_database :: go_string
  cfg_clickhouse_user :: go_string
  cfg_clickhouse_password :: go_string
  cfg_redis_addr :: go_string
  cfg_redis_password :: go_string
  cfg_health_check_timeout :: duration
  cfg_health_cache_ttl :: duration

definition min_port :: int where "min_port = 1"
definition max_port :: int where "max_port = 65535"
definition max_grace_period :: duration where "max_grace_period = 5 * minute"
definition max_health_timeout :: duration where "max_health_timeout = 30 * second"

definition valid_environments :: "go_string list" where
  "valid_environments = [''local'', ''ci'', ''benchmark'']"

definition valid_log_levels :: "go_string list" where
  "valid_log_levels = [''debug'', ''info'', ''warn'', ''error'']"

section \<open>Rules\<close>

definition require_non_empty :: "collector \<Rightarrow> go_string \<Rightarrow> go_string \<Rightarrow> collector" where
  "require_non_empty c name value =
     (if trim_space value = '''' then add_problem c name value ''must not be empty'' else c)"

definition one_of_want :: "go_string list \<Rightarrow> go_string" where
  "one_of_want allowed = ''must be one of '' @ join '', '' allowed"

definition require_one_of ::
  "go_string list \<Rightarrow> collector \<Rightarrow> go_string \<Rightarrow> go_string \<Rightarrow> collector" where
  "require_one_of allowed c name value =
     (if list_ex (\<lambda>a. value = a) allowed then c
      else add_problem c name value (one_of_want allowed))"

definition int_range_want :: "int \<Rightarrow> int \<Rightarrow> go_string" where
  "int_range_want minimum maximum =
     ''must be an integer between '' @ itoa minimum @ '' and '' @ itoa maximum"

definition require_int_range ::
  "int \<Rightarrow> int \<Rightarrow> collector \<Rightarrow> go_string \<Rightarrow> int \<Rightarrow> collector" where
  "require_int_range minimum maximum c name value =
     (if value < minimum \<or> value > maximum
      then add_problem c name (itoa value) (int_range_want minimum maximum)
      else c)"

definition duration_range_want :: "duration \<Rightarrow> bool \<Rightarrow> go_string" where
  "duration_range_want maximum allow_zero =
     (let lower = (if allow_zero then ''0 or greater'' else ''greater than 0'')
      in ''must be '' @ lower @ '' and at most '' @ duration_string maximum)"

definition require_duration_range ::
  "duration \<Rightarrow> bool \<Rightarrow> collector \<Rightarrow> go_string \<Rightarrow> duration \<Rightarrow> collector" where
  "require_duration_range maximum allow_zero c name value =
     (if value < 0 \<or> (\<not> allow_zero \<and> value = 0) \<or> value > maximum
      then add_problem c name (duration_string value) (duration_range_want maximum allow_zero)
      else c)"

definition host_port_want :: go_string where
  \<open>host_port_want = ''must be host:port, for example "localhost:9092"''\<close>

definition require_host_port :: "collector \<Rightarrow> go_string \<Rightarrow> go_string \<Rightarrow> collector" where
  "require_host_port c name value =
     (case split_host_port value of
        None \<Rightarrow> add_problem c name value host_port_want
      | Some (host, port) \<Rightarrow>
          if host = '''' \<or> port = '''' then add_problem c name value host_port_want
          else (case atoi port of
            None \<Rightarrow> add_problem c name value host_port_want
          | Some n \<Rightarrow> if n < min_port \<or> n > max_port
                      then add_problem c name value host_port_want else c))"

definition require_brokers :: "collector \<Rightarrow> go_string list \<Rightarrow> collector" where
  "require_brokers c brokers =
     (let c = (if brokers = []
               then add_problem c ''KAFKA_BROKERS'' '''' ''must contain at least one host:port entry''
               else c)
      in fold (\<lambda>broker c. require_host_port c ''KAFKA_BROKERS'' broker) brokers c)"

definition ttl_want :: "duration \<times> duration \<Rightarrow> go_string" where
  "ttl_want p =
     ''must be less than '' @ env_prefix @ ''HEALTH_CHECK_TIMEOUT ('' @ duration_string (snd p)
     @ '')''"

definition require_ttl_below_timeout ::
  "collector \<Rightarrow> go_string \<Rightarrow> duration \<times> duration \<Rightarrow> collector" where
  "require_ttl_below_timeout c name p =
     (if fst p \<ge> snd p then add_problem c name (duration_string (fst p)) (ttl_want p) else c)"

definition validate :: "config \<Rightarrow> collector \<Rightarrow> collector" where
  "validate cfg c =
     (let c = require_non_empty c ''SERVICE_NAME'' (cfg_service_name cfg);
          c = require_non_empty c ''VERSION'' (cfg_version cfg);
          c = require_one_of valid_environments c ''ENVIRONMENT'' (cfg_environment cfg);
          c = require_int_range min_port max_port c ''HTTP_PORT'' (cfg_http_port cfg);
          c = require_duration_range max_grace_period False c ''SHUTDOWN_GRACE_PERIOD''
                (cfg_shutdown_grace_period cfg);
          c = require_one_of valid_log_levels c ''LOG_LEVEL'' (cfg_log_level cfg);
          c = require_brokers c (cfg_kafka_brokers cfg);
          c = require_host_port c ''CLICKHOUSE_ADDR'' (cfg_clickhouse_addr cfg);
          c = require_non_empty c ''CLICKHOUSE_DATABASE'' (cfg_clickhouse_database cfg);
          c = require_non_empty c ''CLICKHOUSE_USER'' (cfg_clickhouse_user cfg);
          c = require_host_port c ''REDIS_ADDR'' (cfg_redis_addr cfg);
          c = require_duration_range max_health_timeout False c ''HEALTH_CHECK_TIMEOUT''
                (cfg_health_check_timeout cfg);
          c = require_duration_range max_health_timeout True c ''HEALTH_CACHE_TTL''
                (cfg_health_cache_ttl cfg);
          c = require_ttl_below_timeout c ''HEALTH_CACHE_TTL''
                (cfg_health_cache_ttl cfg, cfg_health_check_timeout cfg)
      in c)"

section \<open>The contract of a rule\<close>

locale rule =
  fixes check :: "collector \<Rightarrow> go_string \<Rightarrow> 'v \<Rightarrow> collector"
    and ok :: "'v \<Rightarrow> bool"
    and shown :: "'v \<Rightarrow> go_string"
    and expected :: "'v \<Rightarrow> go_string"
  assumes accepts: "ok v \<Longrightarrow> check c name v = c"
    and rejects: "\<not> ok v \<Longrightarrow> check c name v = add_problem c name (shown v) (expected v)"
    and expected_line: "CHR 0x0A \<notin> set (expected v)"
begin

lemma check_problems:
  "problems (check c name v) =
     problems c @ (if ok v then []
       else [\<lparr>variable = env_prefix @ name, got = shown v, want = expected v\<rparr>])"
  by (simp add: accepts rejects add_problem_def)

lemma check_names:
  "map variable (problems (check c name v)) =
     map variable (problems c) @ (if ok v then [] else [env_prefix @ name])"
  by (simp add: check_problems)

lemma check_one_line:
  "CHR 0x0A \<notin> set name \<Longrightarrow> list_all one_line (problems c) \<Longrightarrow>
     list_all one_line (problems (check c name v))"
  by (simp add: check_problems one_line_def expected_line env_prefix_def)

text \<open>A rule run over a list of values.\<close>

lemma fold_names:
  "map variable (problems (fold (\<lambda>v c. check c name v) vs c)) =
     map variable (problems c) @ map (\<lambda>_. env_prefix @ name) (filter (\<lambda>v. \<not> ok v) vs)"
  by (induction vs arbitrary: c) (auto simp: check_names)

lemma fold_one_line:
  "CHR 0x0A \<notin> set name \<Longrightarrow> list_all one_line (problems c) \<Longrightarrow>
     list_all one_line (problems (fold (\<lambda>v c. check c name v) vs c))"
  by (induction vs arbitrary: c) (auto simp: check_one_line)

end

section \<open>What each rule accepts\<close>

definition blank :: "go_string \<Rightarrow> bool" where
  "blank s \<longleftrightarrow> trim_space s = ''''"

definition duration_ok :: "duration \<Rightarrow> bool \<Rightarrow> duration \<Rightarrow> bool" where
  "duration_ok maximum allow_zero d \<longleftrightarrow> (if allow_zero then 0 \<le> d else 0 < d) \<and> d \<le> maximum"

definition host_port_ok :: "go_string \<Rightarrow> bool" where
  "host_port_ok s \<longleftrightarrow>
     (case split_host_port s of None \<Rightarrow> False
      | Some (host, port) \<Rightarrow> host \<noteq> '''' \<and>
          (case atoi port of None \<Rightarrow> False | Some n \<Rightarrow> 1 \<le> n \<and> n \<le> 65535))"

lemma duration_range_want_no_lf: "CHR 0x0A \<notin> set (duration_range_want m z)"
  using duration_string_no_lf by (auto simp: duration_range_want_def Let_def)

interpretation non_empty_rule:
  rule require_non_empty "\<lambda>s. \<not> blank s" "\<lambda>s. s" "\<lambda>_. ''must not be empty''"
  by unfold_locales (auto simp: require_non_empty_def blank_def)

interpretation environment_rule:
  rule "require_one_of valid_environments" "\<lambda>s. s \<in> set valid_environments" "\<lambda>s. s"
       "\<lambda>_. one_of_want valid_environments"
  by unfold_locales
     (auto simp: require_one_of_def list_ex_iff one_of_want_def valid_environments_def)

interpretation log_level_rule:
  rule "require_one_of valid_log_levels" "\<lambda>s. s \<in> set valid_log_levels" "\<lambda>s. s"
       "\<lambda>_. one_of_want valid_log_levels"
  by unfold_locales
     (auto simp: require_one_of_def list_ex_iff one_of_want_def valid_log_levels_def)

interpretation port_rule:
  rule "require_int_range min_port max_port" "\<lambda>n. min_port \<le> n \<and> n \<le> max_port" itoa
       "\<lambda>_. int_range_want min_port max_port"
  using itoa_no_lf by unfold_locales (auto simp: require_int_range_def int_range_want_def)

interpretation grace_rule:
  rule "require_duration_range max_grace_period False" "duration_ok max_grace_period False"
       duration_string "\<lambda>_. duration_range_want max_grace_period False"
  using duration_range_want_no_lf
  by unfold_locales (auto simp: require_duration_range_def duration_ok_def)

interpretation timeout_rule:
  rule "require_duration_range max_health_timeout False" "duration_ok max_health_timeout False"
       duration_string "\<lambda>_. duration_range_want max_health_timeout False"
  using duration_range_want_no_lf
  by unfold_locales (auto simp: require_duration_range_def duration_ok_def)

interpretation ttl_rule:
  rule "require_duration_range max_health_timeout True" "duration_ok max_health_timeout True"
       duration_string "\<lambda>_. duration_range_want max_health_timeout True"
  using duration_range_want_no_lf
  by unfold_locales (auto simp: require_duration_range_def duration_ok_def)

lemma atoi_empty: "atoi '''' = None"
  by (simp add: atoi_def split_sign_def)

interpretation host_port_rule:
  rule require_host_port host_port_ok "\<lambda>s. s" "\<lambda>_. host_port_want"
  by unfold_locales
     (auto simp: require_host_port_def host_port_ok_def atoi_empty min_port_def max_port_def
        host_port_want_def split: option.splits)

interpretation ttl_below_timeout_rule:
  rule require_ttl_below_timeout "\<lambda>p. fst p < snd p" "\<lambda>p. duration_string (fst p)" ttl_want
  using duration_string_no_lf
  by unfold_locales (auto simp: require_ttl_below_timeout_def ttl_want_def env_prefix_def)

section \<open>What validation adds\<close>

text \<open>
  The configuration contract as a list of named rules, in the order the code checks them:
  what \<open>validate\<close> adds to the collector is one problem per failed rule.
\<close>

definition broker_rules :: "go_string list \<Rightarrow> (go_string \<times> bool) list" where
  "broker_rules brokers =
     (''KAFKA_BROKERS'', brokers \<noteq> []) # map (\<lambda>b. (''KAFKA_BROKERS'', host_port_ok b)) brokers"

definition config_rules :: "config \<Rightarrow> (go_string \<times> bool) list" where
  "config_rules cfg =
     [(''SERVICE_NAME'', \<not> blank (cfg_service_name cfg)),
      (''VERSION'', \<not> blank (cfg_version cfg)),
      (''ENVIRONMENT'', cfg_environment cfg \<in> {''local'', ''ci'', ''benchmark''}),
      (''HTTP_PORT'', 1 \<le> cfg_http_port cfg \<and> cfg_http_port cfg \<le> 65535),
      (''SHUTDOWN_GRACE_PERIOD'',
         0 < cfg_shutdown_grace_period cfg \<and> cfg_shutdown_grace_period cfg \<le> 5 * minute),
      (''LOG_LEVEL'', cfg_log_level cfg \<in> {''debug'', ''info'', ''warn'', ''error''})]
     @ broker_rules (cfg_kafka_brokers cfg) @
     [(''CLICKHOUSE_ADDR'', host_port_ok (cfg_clickhouse_addr cfg)),
      (''CLICKHOUSE_DATABASE'', \<not> blank (cfg_clickhouse_database cfg)),
      (''CLICKHOUSE_USER'', \<not> blank (cfg_clickhouse_user cfg)),
      (''REDIS_ADDR'', host_port_ok (cfg_redis_addr cfg)),
      (''HEALTH_CHECK_TIMEOUT'',
         0 < cfg_health_check_timeout cfg \<and> cfg_health_check_timeout cfg \<le> 30 * second),
      (''HEALTH_CACHE_TTL'',
         0 \<le> cfg_health_cache_ttl cfg \<and> cfg_health_cache_ttl cfg \<le> 30 * second),
      (''HEALTH_CACHE_TTL'', cfg_health_cache_ttl cfg < cfg_health_check_timeout cfg)]"

definition failing :: "(go_string \<times> bool) list \<Rightarrow> go_string list" where
  "failing rules = map fst (filter (\<lambda>r. \<not> snd r) rules)"

definition failed_rules :: "config \<Rightarrow> go_string list" where
  "failed_rules cfg = failing (config_rules cfg)"

definition full_names :: "go_string list \<Rightarrow> go_string list" where
  "full_names names = map (\<lambda>n. env_prefix @ n) names"

lemma full_names_failing:
  "full_names (failing []) = []"
  "full_names (failing ((n, b) # rs)) = (if b then [] else [env_prefix @ n]) @ full_names (failing rs)"
  "full_names (failing (rs @ rs')) = full_names (failing rs) @ full_names (failing rs')"
  by (simp_all add: full_names_def failing_def)

definition config_ok :: "config \<Rightarrow> bool" where
  "config_ok cfg \<longleftrightarrow> list_all snd (config_rules cfg)"

lemma config_ok_failed_rules: "config_ok cfg \<longleftrightarrow> failed_rules cfg = []"
  by (auto simp: config_ok_def failed_rules_def failing_def list_all_iff filter_empty_conv)

lemma require_brokers_names:
  "map variable (problems (require_brokers c bs)) =
     map variable (problems c) @ full_names (failing (broker_rules bs))"
  by (simp add: require_brokers_def host_port_rule.fold_names broker_rules_def add_problem_def
      filter_map comp_def full_names_def failing_def)

lemma validate_names:
  "map variable (problems (validate cfg c)) =
     map variable (problems c) @ full_names (failed_rules cfg)"
  unfolding validate_def Let_def failed_rules_def config_rules_def full_names_failing
    ttl_below_timeout_rule.check_names ttl_rule.check_names
    timeout_rule.check_names host_port_rule.check_names non_empty_rule.check_names
    require_brokers_names log_level_rule.check_names grace_rule.check_names
    port_rule.check_names environment_rule.check_names
  unfolding duration_ok_def max_grace_period_def max_health_timeout_def min_port_def max_port_def
    valid_environments_def valid_log_levels_def list.set fst_conv snd_conv if_True if_False
    append_assoc append_Nil2
  by (rule refl)

lemma require_brokers_one_line:
  "list_all one_line (problems c) \<Longrightarrow> list_all one_line (problems (require_brokers c bs))"
  by (simp add: require_brokers_def Let_def host_port_rule.fold_one_line add_problem_def
      one_line_def env_prefix_def)

lemma validate_one_line:
  "list_all one_line (problems c) \<Longrightarrow> list_all one_line (problems (validate cfg c))"
  unfolding validate_def Let_def
  by (simp add: ttl_below_timeout_rule.check_one_line ttl_rule.check_one_line
      timeout_rule.check_one_line host_port_rule.check_one_line non_empty_rule.check_one_line
      require_brokers_one_line log_level_rule.check_one_line grace_rule.check_one_line
      port_rule.check_one_line environment_rule.check_one_line)

end
