(* ===== verification/Config_Load.thy ===== *)
theory Config_Load
  imports Config_Validate
begin

text \<open>
  \<open>internal/config/config.go\<close> and \<open>internal/config/mask.go\<close>: assembling the configuration
  from the environment, validating it as a whole, and rendering it with secrets masked.
\<close>

section \<open>Loading\<close>

record service_defaults =
  sd_service_name :: go_string
  sd_http_port :: int

definition api_defaults :: service_defaults where
  "api_defaults = \<lparr>sd_service_name = ''pulseflow-api'', sd_http_port = 8080\<rparr>"

definition worker_defaults :: service_defaults where
  "worker_defaults = \<lparr>sd_service_name = ''pulseflow-worker'', sd_http_port = 8081\<rparr>"

text \<open>The struct literal of \<open>Load\<close>: its getters run in the order of the fields.\<close>

definition read_config :: "env \<Rightarrow> service_defaults \<Rightarrow> collector \<Rightarrow> config \<times> collector" where
  "read_config env d c =
     (let service_name = get_str env ''SERVICE_NAME'' (sd_service_name d);
          version = get_str env ''VERSION'' ''dev'';
          environment = get_str env ''ENVIRONMENT'' ''local'';
          (http_port, c) = get_int env c ''HTTP_PORT'' (sd_http_port d);
          (grace, c) = get_duration env c ''SHUTDOWN_GRACE_PERIOD'' (30 * second);
          log_level = get_str env ''LOG_LEVEL'' ''info'';
          (brokers, c) = get_list env c ''KAFKA_BROKERS'' [''localhost:9092''];
          ch_addr = get_str env ''CLICKHOUSE_ADDR'' ''localhost:9000'';
          ch_database = get_str env ''CLICKHOUSE_DATABASE'' ''pulseflow'';
          ch_user = get_str env ''CLICKHOUSE_USER'' ''default'';
          ch_password = get_str env ''CLICKHOUSE_PASSWORD'' '''';
          redis_addr = get_str env ''REDIS_ADDR'' ''localhost:6379'';
          redis_password = get_str env ''REDIS_PASSWORD'' '''';
          (timeout, c) = get_duration env c ''HEALTH_CHECK_TIMEOUT'' (2 * second);
          (ttl, c) = get_duration env c ''HEALTH_CACHE_TTL'' second
      in (\<lparr>cfg_service_name = service_name, cfg_version = version,
           cfg_environment = environment, cfg_http_port = http_port,
           cfg_shutdown_grace_period = grace, cfg_log_level = log_level,
           cfg_kafka_brokers = brokers, cfg_clickhouse_addr = ch_addr,
           cfg_clickhouse_database = ch_database, cfg_clickhouse_user = ch_user,
           cfg_clickhouse_password = ch_password, cfg_redis_addr = redis_addr,
           cfg_redis_password = redis_password, cfg_health_check_timeout = timeout,
           cfg_health_cache_ttl = ttl\<rparr>, c))"

definition load :: "env \<Rightarrow> service_defaults \<Rightarrow> validation_error + config" where
  "load env d =
     (let (cfg, c) = read_config env d \<lparr>problems = []\<rparr>;
          c = validate cfg c
      in if problems c \<noteq> [] then Inl (ValidationError (problems c)) else Inr cfg)"

section \<open>Rendering\<close>

definition masked :: go_string where
  "masked = ''***''"

definition mask :: "go_string \<Rightarrow> go_string" where
  "mask secret = (if secret = '''' then '''' else masked)"

definition config_fields :: "config \<Rightarrow> (go_string \<times> go_string) list" where
  "config_fields c =
     [(''service_name'', cfg_service_name c),
      (''version'', cfg_version c),
      (''environment'', cfg_environment c),
      (''http_port'', itoa (cfg_http_port c)),
      (''shutdown_grace_period'', duration_string (cfg_shutdown_grace_period c)),
      (''log_level'', cfg_log_level c),
      (''kafka_brokers'', join '','' (cfg_kafka_brokers c)),
      (''clickhouse_addr'', cfg_clickhouse_addr c),
      (''clickhouse_database'', cfg_clickhouse_database c),
      (''clickhouse_user'', cfg_clickhouse_user c),
      (''clickhouse_password'', mask (cfg_clickhouse_password c)),
      (''redis_addr'', cfg_redis_addr c),
      (''redis_password'', mask (cfg_redis_password c)),
      (''health_check_timeout'', duration_string (cfg_health_check_timeout c)),
      (''health_cache_ttl'', duration_string (cfg_health_cache_ttl c))]"

text \<open>The loop of \<open>Config.String\<close>: a space before every field but the first.\<close>

fun render_fields :: "nat \<Rightarrow> (go_string \<times> go_string) list \<Rightarrow> go_string" where
  "render_fields i [] = ''''"
| "render_fields i ((n, v) # fs) =
     (if i > 0 then '' '' else '''') @ n @ ''='' @ v @ render_fields (Suc i) fs"

definition config_string :: "config \<Rightarrow> go_string" where
  "config_string c = ''Config{'' @ render_fields 0 (config_fields c) @ ''}''"

definition log_value :: "config \<Rightarrow> go_string" where
  "log_value c = config_string c"

section \<open>What loading computes\<close>

text \<open>
  The configuration an environment describes (defaults for what is unset or malformed) and
  the syntactic rules, as a list of named conditions like \<open>config_rules\<close>.
\<close>

definition env_config :: "env \<Rightarrow> service_defaults \<Rightarrow> config" where
  "env_config env d =
     \<lparr>cfg_service_name = get_str env ''SERVICE_NAME'' (sd_service_name d),
      cfg_version = get_str env ''VERSION'' ''dev'',
      cfg_environment = get_str env ''ENVIRONMENT'' ''local'',
      cfg_http_port = parsed_value atoi env ''HTTP_PORT'' (sd_http_port d),
      cfg_shutdown_grace_period =
        parsed_value parse_duration env ''SHUTDOWN_GRACE_PERIOD'' (30 * second),
      cfg_log_level = get_str env ''LOG_LEVEL'' ''info'',
      cfg_kafka_brokers = parsed_value parse_list env ''KAFKA_BROKERS'' [''localhost:9092''],
      cfg_clickhouse_addr = get_str env ''CLICKHOUSE_ADDR'' ''localhost:9000'',
      cfg_clickhouse_database = get_str env ''CLICKHOUSE_DATABASE'' ''pulseflow'',
      cfg_clickhouse_user = get_str env ''CLICKHOUSE_USER'' ''default'',
      cfg_clickhouse_password = get_str env ''CLICKHOUSE_PASSWORD'' '''',
      cfg_redis_addr = get_str env ''REDIS_ADDR'' ''localhost:6379'',
      cfg_redis_password = get_str env ''REDIS_PASSWORD'' '''',
      cfg_health_check_timeout =
        parsed_value parse_duration env ''HEALTH_CHECK_TIMEOUT'' (2 * second),
      cfg_health_cache_ttl = parsed_value parse_duration env ''HEALTH_CACHE_TTL'' second\<rparr>"

definition parse_rules :: "env \<Rightarrow> (go_string \<times> bool) list" where
  "parse_rules env =
     [(''HTTP_PORT'', \<not> parse_fails atoi env ''HTTP_PORT''),
      (''SHUTDOWN_GRACE_PERIOD'', \<not> parse_fails parse_duration env ''SHUTDOWN_GRACE_PERIOD''),
      (''KAFKA_BROKERS'', \<not> parse_fails parse_list env ''KAFKA_BROKERS''),
      (''HEALTH_CHECK_TIMEOUT'', \<not> parse_fails parse_duration env ''HEALTH_CHECK_TIMEOUT''),
      (''HEALTH_CACHE_TTL'', \<not> parse_fails parse_duration env ''HEALTH_CACHE_TTL'')]"

lemma read_config_config: "fst (read_config env d c) = env_config env d"
  by (simp add: read_config_def env_config_def Let_def split_beta int_getter.get_value
      duration_getter.get_value list_getter.get_value)

lemma read_config_names:
  "map variable (problems (snd (read_config env d c))) =
     map variable (problems c) @ full_names (failing (parse_rules env))"
  by (simp add: read_config_def Let_def split_beta parse_rules_def full_names_failing
      int_getter.get_names duration_getter.get_names list_getter.get_names)

lemma read_config_one_line:
  "list_all one_line (problems c) \<Longrightarrow> list_all one_line (problems (snd (read_config env d c)))"
  by (simp add: read_config_def Let_def split_beta int_getter.get_one_line
      duration_getter.get_one_line list_getter.get_one_line)

definition final_collector :: "env \<Rightarrow> service_defaults \<Rightarrow> collector" where
  "final_collector env d =
     validate (env_config env d) (snd (read_config env d \<lparr>problems = []\<rparr>))"

lemma load_eq:
  "load env d =
     (if problems (final_collector env d) = [] then Inr (env_config env d)
      else Inl (ValidationError (problems (final_collector env d))))"
  using read_config_config [of env d "\<lparr>problems = []\<rparr>"]
  by (auto simp: load_def final_collector_def Let_def split_beta)

lemma final_names:
  "map variable (problems (final_collector env d)) =
     full_names (failing (parse_rules env @ config_rules (env_config env d)))"
  by (simp add: final_collector_def validate_names read_config_names full_names_failing
      failed_rules_def)

lemma final_clean:
  "problems (final_collector env d) = [] \<longleftrightarrow>
     list_all snd (parse_rules env) \<and> config_ok (env_config env d)"
proof -
  have "problems (final_collector env d) = [] \<longleftrightarrow>
      map variable (problems (final_collector env d)) = []" by simp
  also have "\<dots> \<longleftrightarrow> failing (parse_rules env @ config_rules (env_config env d)) = []"
    by (simp add: final_names full_names_def)
  also have "\<dots> \<longleftrightarrow> list_all snd (parse_rules env) \<and> config_ok (env_config env d)"
    by (auto simp: failing_def config_ok_def list_all_iff filter_empty_conv)
  finally show ?thesis .
qed

lemma final_one_line: "list_all one_line (problems (final_collector env d))"
  by (simp add: final_collector_def validate_one_line read_config_one_line)

end
