(* ===== verification/Config_Properties.thy ===== *)
theory Config_Properties
  imports Config_Load
begin

text \<open>
  The properties of configuration loading: what \<open>Load\<close> accepts, what it reports, that no
  secret leaves it, and how its values read back. The environments named here serve as the
  concrete inputs of the witnesses.
\<close>

section \<open>Acceptance and reporting\<close>

definition three_mistakes :: env where
  "three_mistakes =
     [''PULSEFLOW_HTTP_PORT'' \<mapsto> ''http'', ''PULSEFLOW_LOG_LEVEL'' \<mapsto> ''verbose'',
      ''PULSEFLOW_HEALTH_CACHE_TTL'' \<mapsto> ''5s'']"

text \<open>
  C1: Load returns a configuration exactly when every set variable parses and every rule of
  the configuration contract holds, and then it returns what the environment describes.
\<close>

theorem load_accepts_iff:
  "load env d = Inr cfg \<longleftrightarrow>
     cfg = env_config env d \<and> list_all snd (parse_rules env) \<and> config_ok cfg"
  by (auto simp: load_eq final_clean)

text \<open>
  C21: Load never stops at the first mistake: the settings it reports are all malformed
  variables followed by all failed rules, each in the order of the code, and nothing else.
\<close>

theorem load_reports_every_problem:
  "(case load env d of Inl e \<Rightarrow> error_fields e | Inr _ \<Rightarrow> []) =
     full_names (failing (parse_rules env @ config_rules (env_config env d)))"
  using final_names [of env d] by (auto simp: load_eq error_fields_def)

text \<open>
  C22: A configuration that was loaded has a port, a grace period, a check timeout and a
  cache TTL inside the documented bounds, a TTL strictly below the timeout, and at least one
  broker, every one a host and port.
\<close>

theorem load_bounds:
  assumes "load env d = Inr cfg"
  shows "1 \<le> cfg_http_port cfg \<and> cfg_http_port cfg \<le> 65535 \<and>
    0 < cfg_shutdown_grace_period cfg \<and> cfg_shutdown_grace_period cfg \<le> 300000000000 \<and>
    0 \<le> cfg_health_cache_ttl cfg \<and>
    cfg_health_cache_ttl cfg < cfg_health_check_timeout cfg \<and>
    cfg_health_check_timeout cfg \<le> 30000000000 \<and>
    cfg_kafka_brokers cfg \<noteq> [] \<and> list_all host_port_ok (cfg_kafka_brokers cfg)"
proof -
  from assms have "config_ok cfg" by (auto simp: load_eq final_clean split: if_splits)
  then show ?thesis
    by (auto simp: config_ok_def config_rules_def broker_rules_def minute_def second_def
        list_all_iff)
qed

theorem load_bounds_witness:
  "load Map.empty api_defaults = Inr (env_config Map.empty api_defaults) \<and>
   cfg_health_cache_ttl (env_config Map.empty api_defaults) <
     cfg_health_check_timeout (env_config Map.empty api_defaults)"
proof -
  have "load Map.empty api_defaults = Inr (env_config Map.empty api_defaults)"
    by code_simp
  with load_bounds [OF this] show ?thesis by simp
qed

definition default_config :: "service_defaults \<Rightarrow> config" where
  "default_config d =
     \<lparr>cfg_service_name = sd_service_name d, cfg_version = ''dev'', cfg_environment = ''local'',
      cfg_http_port = sd_http_port d, cfg_shutdown_grace_period = 30000000000,
      cfg_log_level = ''info'', cfg_kafka_brokers = [''localhost:9092''],
      cfg_clickhouse_addr = ''localhost:9000'', cfg_clickhouse_database = ''pulseflow'',
      cfg_clickhouse_user = ''default'', cfg_clickhouse_password = '''',
      cfg_redis_addr = ''localhost:6379'', cfg_redis_password = '''',
      cfg_health_check_timeout = 2000000000, cfg_health_cache_ttl = 1000000000\<rparr>"

lemma default_config_ok:
  "config_ok (default_config api_defaults)" "config_ok (default_config worker_defaults)"
  by code_simp+

lemma unset_env:
  assumes "\<And>n. lookup env n = None"
  shows "env_config env d = default_config d" "list_all snd (parse_rules env)"
  using assms
  by (auto simp: env_config_def default_config_def get_str_def parsed_value_def second_def
      parse_rules_def parse_fails_def)

text \<open>
  With none of its variables set to a non-empty value, either service loads its own
  defaults: the environment never has to provide anything.
\<close>

theorem load_defaults:
  assumes "\<And>n. lookup env n = None" and "d = api_defaults \<or> d = worker_defaults"
  shows "load env d = Inr (default_config d)"
  using unset_env [OF assms(1)] default_config_ok assms(2)
  by (auto simp: load_eq final_clean)

theorem load_defaults_witness:
  "load Map.empty worker_defaults = Inr (default_config worker_defaults)"
  by (rule load_defaults) (simp_all add: lookup_def)

section \<open>Messages\<close>

text \<open>
  The rendered error has one line per problem after its heading line: exactly as many
  line feeds as problems, whatever the values received contain, because values are quoted.
\<close>

theorem error_one_line_per_problem:
  assumes "load env d = Inl e"
  shows "length (filter ((=) CHR 0x0A) (error_message is_print e)) = length (error_problems e)
    \<and> error_problems e \<noteq> []"
proof -
  from assms have e: "error_problems e = problems (final_collector env d)"
    and ne: "error_problems e \<noteq> []"
    by (auto simp: load_eq split: if_splits)
  have heading: "CHR 0x0A \<notin> set (itoa n)" for n by (rule itoa_no_lf)
  have lines: "\<forall>p \<in> set (error_problems e). one_line p"
    using final_one_line by (simp add: e list_all_iff)
  have "length (filter ((=) CHR 0x0A) (error_message is_print e)) =
      length (filter ((=) CHR 0x0A)
        (concat (map (\<lambda>p. CHR 0x0A # ''  '' @ problem_string is_print p) (error_problems e))))"
    using ne count_zero [OF heading]
    by (simp add: error_message_def Let_def plural_def)
  with count_lf_lines [OF lines] ne show ?thesis by simp
qed

theorem error_one_line_per_problem_witness:
  "\<exists>e. load three_mistakes api_defaults = Inl e
     \<and> length (filter ((=) CHR 0x0A) (error_message (\<lambda>_. True) e)) = 3"
proof -
  obtain e where e: "load three_mistakes api_defaults = Inl e \<and> length (error_problems e) = 3"
  proof -
    have "(case load three_mistakes api_defaults of
             Inl e \<Rightarrow> length (error_problems e) = 3 | Inr _ \<Rightarrow> False)" by code_simp
    then show ?thesis using that by (auto split: sum.splits)
  qed
  with error_one_line_per_problem [of three_mistakes api_defaults e "\<lambda>_. True"]
  show ?thesis by auto
qed

lemma get_int_malformed_in:
  "lookup env name = Some v \<Longrightarrow> atoi v = None \<Longrightarrow>
     \<lparr>variable = env_prefix @ name, got = v, want = ''must be an integer''\<rparr>
       \<in> set (problems (snd (get_int env c name def)))"
  by (simp add: int_getter.malformed add_problem_def)

lemma getters_keep_problems:
  "p \<in> set (problems c) \<Longrightarrow> p \<in> set (problems (snd (get_duration env c name d)))"
  "p \<in> set (problems c) \<Longrightarrow> p \<in> set (problems (snd (get_list env c name l)))"
  by (simp_all add: duration_getter.get_problems list_getter.get_problems)

lemma brokers_keep_problems:
  "p \<in> set (problems c) \<Longrightarrow> p \<in> set (problems (require_brokers c bs))"
proof -
  have "p \<in> set (problems c) \<Longrightarrow>
      p \<in> set (problems (fold (\<lambda>b c. require_host_port c ''KAFKA_BROKERS'' b) bs c))" for c
    by (induction bs arbitrary: c) (simp_all add: host_port_rule.check_problems)
  then show "p \<in> set (problems c) \<Longrightarrow> p \<in> set (problems (require_brokers c bs))"
    by (simp add: require_brokers_def Let_def add_problem_def)
qed

lemma validate_keeps_problems:
  "p \<in> set (problems c) \<Longrightarrow> p \<in> set (problems (validate cfg c))"
  unfolding validate_def Let_def
  by (simp add: ttl_below_timeout_rule.check_problems ttl_rule.check_problems
      timeout_rule.check_problems host_port_rule.check_problems non_empty_rule.check_problems
      brokers_keep_problems log_level_rule.check_problems grace_rule.check_problems
      port_rule.check_problems environment_rule.check_problems)

text \<open>
  A port that is not an integer is reported with the value received and the words
  "must be an integer": the permitted range is not part of that message.
\<close>

theorem malformed_port_message:
  assumes "lookup env ''HTTP_PORT'' = Some v" and "atoi v = None" and "load env d = Inl e"
  shows "\<lparr>variable = ''PULSEFLOW_HTTP_PORT'', got = v, want = ''must be an integer''\<rparr>
    \<in> set (error_problems e)"
proof -
  let ?p = "\<lparr>variable = env_prefix @ ''HTTP_PORT'', got = v, want = ''must be an integer''\<rparr>"
  have "?p \<in> set (problems (snd (read_config env d \<lparr>problems = []\<rparr>)))"
    using get_int_malformed_in [OF assms(1,2)]
    by (simp add: read_config_def Let_def split_beta getters_keep_problems)
  then have "?p \<in> set (problems (final_collector env d))"
    by (simp add: final_collector_def validate_keeps_problems)
  with assms(3) show ?thesis
    by (auto simp: load_eq env_prefix_def split: if_splits)
qed

theorem malformed_port_message_witness:
  "\<exists>e. load three_mistakes api_defaults = Inl e \<and>
     \<lparr>variable = ''PULSEFLOW_HTTP_PORT'', got = ''http'', want = ''must be an integer''\<rparr>
       \<in> set (error_problems e)"
proof -
  have "(case load three_mistakes api_defaults of Inl _ \<Rightarrow> True | Inr _ \<Rightarrow> False)"
    by code_simp
  then obtain e where "load three_mistakes api_defaults = Inl e"
    by (auto split: sum.splits)
  moreover have "lookup three_mistakes ''HTTP_PORT'' = Some ''http''" "atoi ''http'' = None"
    by code_simp+
  ultimately show ?thesis using malformed_port_message by blast
qed

section \<open>Secrets\<close>

definition with_secrets :: "env \<Rightarrow> go_string option \<Rightarrow> go_string option \<Rightarrow> env" where
  "with_secrets env p q =
     env(''PULSEFLOW_CLICKHOUSE_PASSWORD'' := p, ''PULSEFLOW_REDIS_PASSWORD'' := q)"

lemma lookup_with_secrets:
  "name \<noteq> ''CLICKHOUSE_PASSWORD'' \<Longrightarrow> name \<noteq> ''REDIS_PASSWORD'' \<Longrightarrow>
     lookup (with_secrets env p q) name = lookup env name"
  by (auto simp: lookup_def with_secrets_def env_prefix_def)

lemma get_str_with_secrets:
  "name \<noteq> ''CLICKHOUSE_PASSWORD'' \<Longrightarrow> name \<noteq> ''REDIS_PASSWORD'' \<Longrightarrow>
     get_str (with_secrets env p q) name def = get_str env name def"
  by (simp add: get_str_def lookup_with_secrets)

lemma read_secret:
  "p \<noteq> '''' \<Longrightarrow> get_str (with_secrets env (Some p) r) ''CLICKHOUSE_PASSWORD'' def = p"
  "q \<noteq> '''' \<Longrightarrow> get_str (with_secrets env r (Some q)) ''REDIS_PASSWORD'' def = q"
  by (simp_all add: get_str_def lookup_def with_secrets_def env_prefix_def)

definition erase_secrets :: "config \<Rightarrow> config" where
  "erase_secrets c = c\<lparr>cfg_clickhouse_password := '''', cfg_redis_password := ''''\<rparr>"

lemma read_config_with_secrets:
  "snd (read_config (with_secrets env p q) d c) = snd (read_config env d c)"
  "erase_secrets (fst (read_config (with_secrets env p q) d c)) =
     erase_secrets (fst (read_config env d c))"
proof -
  have same: "get_int (with_secrets env p q) c ''HTTP_PORT'' n = get_int env c ''HTTP_PORT'' n"
    "get_list (with_secrets env p q) c ''KAFKA_BROKERS'' l = get_list env c ''KAFKA_BROKERS'' l"
    for c n l
    by (rule int_getter.get_same_env list_getter.get_same_env, simp add: lookup_with_secrets)+
  have durations: "name \<noteq> ''CLICKHOUSE_PASSWORD'' \<Longrightarrow> name \<noteq> ''REDIS_PASSWORD'' \<Longrightarrow>
      get_duration (with_secrets env p q) c name t = get_duration env c name t" for c name t
    by (rule duration_getter.get_same_env) (simp add: lookup_with_secrets)
  show "snd (read_config (with_secrets env p q) d c) = snd (read_config env d c)"
    by (simp add: read_config_def Let_def split_beta same durations)
  show "erase_secrets (fst (read_config (with_secrets env p q) d c)) =
     erase_secrets (fst (read_config env d c))"
    by (simp add: read_config_def Let_def split_beta same durations get_str_with_secrets
        erase_secrets_def)
qed

lemma validate_erase_secrets: "validate (erase_secrets cfg) c = validate cfg c"
  by (simp add: validate_def erase_secrets_def)

text \<open>Configurations that differ in the passwords alone, and there not in whether one is set.\<close>

definition alike :: "config \<Rightarrow> config \<Rightarrow> bool" where
  "alike c c' \<longleftrightarrow> erase_secrets c = erase_secrets c' \<and>
     mask (cfg_clickhouse_password c) = mask (cfg_clickhouse_password c') \<and>
     mask (cfg_redis_password c) = mask (cfg_redis_password c')"

lemma alike_string: "alike c c' \<Longrightarrow> config_string c = config_string c'"
  by (cases c; cases c') (simp add: alike_def config_string_def config_fields_def erase_secrets_def)

text \<open>
  With any two non-empty passwords in place of any other two, loading gives the same error, or
  configurations that differ in the passwords alone and are rendered alike.
\<close>

lemma load_with_secrets:
  assumes "p \<noteq> ''''" "q \<noteq> ''''" "p' \<noteq> ''''" "q' \<noteq> ''''"
  shows "rel_sum (=) alike
    (load (with_secrets env (Some p) (Some q)) d) (load (with_secrets env (Some p') (Some q')) d)"
proof -
  let ?e = "with_secrets env (Some p) (Some q)" and ?e' = "with_secrets env (Some p') (Some q')"
  let ?r = "read_config ?e d \<lparr>problems = []\<rparr>" and ?r' = "read_config ?e' d \<lparr>problems = []\<rparr>"
  have er: "erase_secrets (fst ?r) = erase_secrets (fst ?r')" and c: "snd ?r = snd ?r'"
    by (simp_all add: read_config_with_secrets)
  have "validate (fst ?r) (snd ?r) = validate (fst ?r') (snd ?r')"
    using er c by (metis validate_erase_secrets)
  moreover have "alike (fst ?r) (fst ?r')"
    using er assms by (simp add: alike_def read_config_config env_config_def read_secret mask_def)
  ultimately show ?thesis by (simp add: load_def Let_def split_beta)
qed

text \<open>
  No secret value reaches anything that loading prints: with any two non-empty passwords in
  place of any other two, loading gives the same error with the same problems, or a
  configuration with the same rendering.
\<close>

theorem load_hides_secrets:
  assumes "p \<noteq> ''''" "q \<noteq> ''''" "p' \<noteq> ''''" "q' \<noteq> ''''"
  shows "map_sum error_problems config_string (load (with_secrets env (Some p) (Some q)) d) =
    map_sum error_problems config_string (load (with_secrets env (Some p') (Some q')) d)"
  using load_with_secrets [OF assms, of env d] by (auto elim!: rel_sum.cases dest: alike_string)

theorem load_hides_secrets_witness:
  "map_sum error_problems config_string
     (load (with_secrets Map.empty (Some ''hunter2'') (Some ''letmein'')) api_defaults) =
   map_sum error_problems config_string
     (load (with_secrets Map.empty (Some ''x'') (Some ''y'')) api_defaults)"
  by (rule load_hides_secrets) simp_all

section \<open>Reading values back\<close>



lemma itoa_plain:
  "CHR '':'' \<notin> set (itoa n)" "CHR ''['' \<notin> set (itoa n)" "CHR '']'' \<notin> set (itoa n)"
  by (auto dest!: itoa_chars simp: is_digit_def byte_def)

text \<open>
  Every address made of a non-empty host and a port number in range is accepted by the
  address rule, IPv6 literals in brackets included, and any number outside the range is
  refused.
\<close>

theorem host_port_rule_accepts_iff:
  assumes "host \<noteq> ''''" "CHR ''['' \<notin> set host" "CHR '']'' \<notin> set host" "int64 n"
  shows "require_host_port c name (join_host_port host (itoa n)) =
    (if 1 \<le> n \<and> n \<le> 65535 then c
     else add_problem c name (join_host_port host (itoa n)) host_port_want)"
proof -
  have "split_host_port (join_host_port host (itoa n)) = Some (host, itoa n)"
    using assms itoa_plain by (intro split_join_host_port)
  then have "host_port_ok (join_host_port host (itoa n)) \<longleftrightarrow> 1 \<le> n \<and> n \<le> 65535"
    using assms by (simp add: host_port_ok_def atoi_itoa)
  then show ?thesis
    using host_port_rule.accepts host_port_rule.rejects by simp
qed

theorem host_port_rule_accepts_iff_witness:
  "require_host_port \<lparr>problems = []\<rparr> ''REDIS_ADDR'' (join_host_port ''::1'' (itoa 6379)) =
    \<lparr>problems = []\<rparr>"
  by (subst host_port_rule_accepts_iff) (simp_all add: int64_def)

end
