(* ===== verification/Go_Regexp.thy ===== *)
theory Go_Regexp
  imports Go_Strings
begin

text \<open>
  The part of Go's \<open>regexp\<close> that the log sanitizer uses: leftmost-first matching (the
  alternatives of a pattern in priority order, a repetition greedy) with captured groups,
  and \<open>ReplaceAllString\<close>. Patterns are written over bytes; the classes of the program's
  patterns differ from each other on ASCII only, so a run of bytes of a class is a run of
  its runes.
\<close>

section \<open>Patterns\<close>

datatype re =
    Eps
  | Cls "char \<Rightarrow> bool"
  | Seq re re
  | Alt re re
  | Star re
  | Grp nat re
  | WordB

text \<open>
  A match state: the byte before the position, the text after it, and the groups captured
  so far.
\<close>

type_synonym mstate = "char option \<times> go_string \<times> (nat \<times> go_string) list"

abbreviation m_rest :: "mstate \<Rightarrow> go_string" where
  "m_rest s \<equiv> fst (snd s)"

definition word_byte :: "char \<Rightarrow> bool" where
  "word_byte c \<longleftrightarrow>
     is_digit c \<or> (65 \<le> byte c \<and> byte c \<le> 90) \<or> (97 \<le> byte c \<and> byte c \<le> 122) \<or> c = CHR ''_''"

definition at_boundary :: "mstate \<Rightarrow> bool" where
  "at_boundary s =
     (let w1 = (case fst s of None \<Rightarrow> False | Some c \<Rightarrow> word_byte c);
          w2 = (case m_rest s of [] \<Rightarrow> False | c # _ \<Rightarrow> word_byte c)
      in w1 \<noteq> w2)"

primrec star_iter :: "(mstate \<Rightarrow> mstate list) \<Rightarrow> nat \<Rightarrow> mstate \<Rightarrow> mstate list" where
  "star_iter step 0 s = [s]"
| "star_iter step (Suc n) s =
     concat (map (\<lambda>s'. if length (m_rest s') < length (m_rest s)
                       then star_iter step n s' else []) (step s)) @ [s]"

definition match_class :: "(char \<Rightarrow> bool) \<Rightarrow> mstate \<Rightarrow> mstate list" where
  "match_class P s =
     (case s of (_, r, caps) \<Rightarrow>
       (case r of [] \<Rightarrow> [] | x # xs \<Rightarrow> if P x then [(Some x, xs, caps)] else []))"

definition capture :: "nat \<Rightarrow> go_string \<Rightarrow> mstate \<Rightarrow> mstate" where
  "capture k r s = (fst s, m_rest s, (k, take (length r - length (m_rest s)) r) # snd (snd s))"

text \<open>
  Every way a pattern matches from a state, in priority order. An iteration of a
  repetition consumes at least one byte, so the length of the text is enough fuel.
\<close>

primrec matches :: "re \<Rightarrow> mstate \<Rightarrow> mstate list" where
  "matches Eps s = [s]"
| "matches (Cls P) s = match_class P s"
| "matches (Seq a b) s = concat (map (matches b) (matches a s))"
| "matches (Alt a b) s = matches a s @ matches b s"
| "matches (Star a) s = star_iter (matches a) (length (m_rest s)) s"
| "matches (Grp k a) s = map (capture k (m_rest s)) (matches a s)"
| "matches WordB s = (if at_boundary s then [s] else [])"

definition plus :: "re \<Rightarrow> re" where
  "plus a = Seq a (Star a)"

definition opt :: "re \<Rightarrow> re" where
  "opt a = Alt a Eps"

fun alts :: "re list \<Rightarrow> re" where
  "alts [] = Cls (\<lambda>_. False)"
| "alts [a] = a"
| "alts (a # b # rs) = Alt a (alts (b # rs))"

definition seqs :: "re list \<Rightarrow> re" where
  "seqs rs = foldr Seq rs Eps"

text \<open>
  A letter under the flag \<open>(?i)\<close>: both cases, and the two runes outside ASCII that fold to
  an ASCII letter (U+017F to \<open>s\<close>, U+212A to \<open>k\<close>).
\<close>

definition long_s :: re where
  "long_s = Seq (Cls (\<lambda>c. c = CHR 0xC5)) (Cls (\<lambda>c. c = CHR 0xBF))"

definition kelvin :: re where
  "kelvin = Seq (Cls (\<lambda>c. c = CHR 0xE2)) (Seq (Cls (\<lambda>c. c = CHR 0x84)) (Cls (\<lambda>c. c = CHR 0xAA)))"

definition fold_char :: "char \<Rightarrow> re" where
  "fold_char x =
     (let base = Cls (\<lambda>c. lower_byte c = x) in
      if x = CHR ''s'' then Alt base long_s
      else if x = CHR ''k'' then Alt base kelvin else base)"

definition fold_lit :: "go_string \<Rightarrow> re" where
  "fold_lit w = seqs (map fold_char w)"

definition fold_class :: "(char \<Rightarrow> bool) \<Rightarrow> re" where
  "fold_class P = Alt (Cls (\<lambda>c. P (lower_byte c))) (Alt long_s kelvin)"

definition re_space :: "char \<Rightarrow> bool" where
  "re_space c \<longleftrightarrow> c \<in> {CHR 0x09, CHR 0x0A, CHR 0x0C, CHR 0x0D, CHR '' ''}"

section \<open>Replacement\<close>

text \<open>
  \<open>ReplaceAllString\<close>: from each match the search goes on at the match's end. The
  program's patterns never match the empty string; a position without a match, or with an
  empty one, is copied.
\<close>

function replace_from ::
  "re \<Rightarrow> ((nat \<times> go_string) list \<Rightarrow> go_string) \<Rightarrow> char option \<Rightarrow> go_string \<Rightarrow> go_string" where
  "replace_from re tmpl prev s =
     (case matches re (prev, s, []) of
        (prev', s', caps) # _ \<Rightarrow>
          if length s' < length s then tmpl caps @ replace_from re tmpl prev' s'
          else (case s of [] \<Rightarrow> [] | x # xs \<Rightarrow> x # replace_from re tmpl (Some x) xs)
      | [] \<Rightarrow> (case s of [] \<Rightarrow> [] | x # xs \<Rightarrow> x # replace_from re tmpl (Some x) xs))"
  by pat_completeness auto
termination
  by (relation "measure (\<lambda>(_, _, _, s). length s)") auto

declare replace_from.simps [simp del]

definition replace_all ::
  "re \<Rightarrow> ((nat \<times> go_string) list \<Rightarrow> go_string) \<Rightarrow> go_string \<Rightarrow> go_string" where
  "replace_all re tmpl s = replace_from re tmpl None s"

definition group :: "nat \<Rightarrow> (nat \<times> go_string) list \<Rightarrow> go_string" where
  "group k caps = (case map_of caps k of None \<Rightarrow> '''' | Some w \<Rightarrow> w)"

section \<open>Facts about matching\<close>

text \<open>What a pattern consumes lies in the classes it is built from.\<close>

primrec over :: "(char \<Rightarrow> bool) \<Rightarrow> re \<Rightarrow> bool" where
  "over P Eps = True"
| "over P (Cls Q) = (\<forall>c. Q c \<longrightarrow> P c)"
| "over P (Seq a b) = (over P a \<and> over P b)"
| "over P (Alt a b) = (over P a \<and> over P b)"
| "over P (Star a) = over P a"
| "over P (Grp k a) = over P a"
| "over P WordB = True"

definition consumes :: "(char \<Rightarrow> bool) \<Rightarrow> mstate \<Rightarrow> mstate \<Rightarrow> bool" where
  "consumes P s s' \<longleftrightarrow> (\<exists>w. m_rest s = w @ m_rest s' \<and> (\<forall>c \<in> set w. P c))"

lemma consumes_refl [intro]: "consumes P s s"
  by (auto simp: consumes_def)

lemma consumes_trans: "consumes P s t \<Longrightarrow> consumes P t u \<Longrightarrow> consumes P s u"
  by (auto simp: consumes_def)

lemma star_iter_consumes:
  assumes "\<And>s s'. s' \<in> set (step s) \<Longrightarrow> consumes P s s'"
  shows "s' \<in> set (star_iter step n s) \<Longrightarrow> consumes P s s'"
  by (induction n arbitrary: s s')
     (auto split: if_splits intro: consumes_trans assms)

lemma matches_consume: "over P re \<Longrightarrow> s' \<in> set (matches re s) \<Longrightarrow> consumes P s s'"
proof (induction re arbitrary: s s')
  case (Cls Q)
  then show ?case
    by (cases s) (auto simp: match_class_def consumes_def split: list.splits if_splits)
next
  case (Seq a b)
  from Seq.prems(2) obtain t where "t \<in> set (matches a s)" "s' \<in> set (matches b t)"
    by (simp only: matches.simps set_concat set_map) blast
  with Seq show ?case by (metis consumes_trans over.simps(3))
next
  case (Star a)
  then show ?case using star_iter_consumes [of "matches a" P] by auto
next
  case (Grp k a)
  then obtain t where "t \<in> set (matches a s)" "s' = capture k (m_rest s) t" by auto
  with Grp show ?case by (auto simp: capture_def consumes_def)
qed (auto split: if_splits)

lemma over_True: "over (\<lambda>_. True) re"
  by (induction re) auto

lemma matches_suffix: "s' \<in> set (matches re s) \<Longrightarrow> suffix (m_rest s') (m_rest s)"
  using matches_consume [OF over_True] by (auto simp: consumes_def suffix_def)

text \<open>A pattern that cannot match the empty string.\<close>

primrec nonempty :: "re \<Rightarrow> bool" where
  "nonempty Eps = False"
| "nonempty (Cls Q) = True"
| "nonempty (Seq a b) = (nonempty a \<or> nonempty b)"
| "nonempty (Alt a b) = (nonempty a \<and> nonempty b)"
| "nonempty (Star a) = False"
| "nonempty (Grp k a) = nonempty a"
| "nonempty WordB = False"

lemma nonempty_match:
  "nonempty re \<Longrightarrow> s' \<in> set (matches re s) \<Longrightarrow> length (m_rest s') < length (m_rest s)"
proof (induction re arbitrary: s s')
  case (Cls Q)
  then show ?case
    by (cases s) (auto simp: match_class_def split: list.splits if_splits)
next
  case (Seq a b)
  from Seq.prems(2) obtain t where t: "t \<in> set (matches a s)" "s' \<in> set (matches b t)"
    by (simp only: matches.simps set_concat set_map) blast
  have le: "length (m_rest t) \<le> length (m_rest s)" "length (m_rest s') \<le> length (m_rest t)"
    using matches_suffix [OF t(1)] matches_suffix [OF t(2)] by (auto dest: suffix_length_le)
  from Seq.prems(1) consider "nonempty a" | "nonempty b" by auto
  then show ?case
    using Seq.IH(1) [OF _ t(1)] Seq.IH(2) [OF _ t(2)] le by cases simp_all
next
  case (Grp k a)
  then obtain t where "t \<in> set (matches a s)" "s' = capture k (m_rest s) t" by auto
  with Grp show ?case by (auto simp: capture_def)
qed (auto split: if_splits)

text \<open>
  Where the next byte is none of those the pattern consumes, a pattern that has to consume
  one does not match.
\<close>

lemma no_match_at:
  assumes "over P re" "nonempty re" "m_rest s = [] \<or> \<not> P (hd (m_rest s))"
  shows "matches re s = []"
proof (rule ccontr)
  assume "matches re s \<noteq> []"
  then obtain s' where s': "s' \<in> set (matches re s)" by (meson last_in_set)
  from matches_consume [OF assms(1) s'] obtain w where
    "m_rest s = w @ m_rest s'" "\<forall>c \<in> set w. P c" by (auto simp: consumes_def)
  with nonempty_match [OF assms(2) s'] assms(3) show False by (cases w) auto
qed

lemma match_class_simps [simp]:
  "match_class P (p, [], caps) = []"
  "match_class P (p, x # r, caps) = (if P x then [(Some x, r, caps)] else [])"
  by (simp_all add: match_class_def)

text \<open>A stuck repetition matches once, emptily; a repeated class takes the whole run first.\<close>

lemma star_iter_stuck: "step s = [] \<Longrightarrow> star_iter step n s = [s]"
  by (cases n) auto

lemma star_class_hd:
  assumes "\<forall>c \<in> set w. P c" and "r = [] \<or> \<not> P (hd r)"
  shows "\<exists>tl. star_iter (match_class P) (length w + n) (p, w @ r, caps)
    = ((if w = [] then p else Some (last w)), r, caps) # tl"
  using assms(1)
proof (induction w arbitrary: p)
  case Nil
  have "match_class P (p, r, caps) = []"
    using assms(2) by (cases r) auto
  then show ?case by (simp add: star_iter_stuck)
next
  case (Cons x w)
  then obtain tl where "star_iter (match_class P) (length w + n) (Some x, w @ r, caps)
      = ((if w = [] then Some x else Some (last w)), r, caps) # tl"
    by fastforce
  with Cons.prems show ?case by auto
qed

lemma concat_map_hd: "f x = y # ys \<Longrightarrow> xs = x # zs \<Longrightarrow> \<exists>tl. concat (map f xs) = y # tl"
  by auto

text \<open>Where a pattern does not match, replacement copies.\<close>

lemma replace_from_skip:
  assumes "\<And>u x v. s = u @ x # v \<Longrightarrow>
      matches re ((if u = [] then prev else Some (last u)), x # v @ t, []) = []"
  shows "replace_from re tmpl prev (s @ t) =
    s @ replace_from re tmpl (if s = [] then prev else Some (last s)) t"
  using assms
proof (induction s arbitrary: prev)
  case (Cons x s)
  have "matches re (prev, x # s @ t, []) = []" using Cons.prems [of "[]" x s] by simp
  moreover have "replace_from re tmpl (Some x) (s @ t) =
      s @ replace_from re tmpl (if s = [] then Some x else Some (last s)) t"
  proof (rule Cons.IH)
    fix u y v assume "s = u @ y # v"
    then show "matches re ((if u = [] then Some x else Some (last u)), y # v @ t, []) = []"
      using Cons.prems [of "x # u" y v] by (auto split: if_splits)
  qed
  ultimately show ?case
    by (subst append_Cons, subst replace_from.simps) auto
qed simp

lemma replace_from_copy:
  assumes "\<And>p u v. s = u @ v \<Longrightarrow> matches re (p, v, []) = []"
  shows "replace_from re tmpl prev s = s"
proof -
  have "replace_from re tmpl prev (s @ []) =
      s @ replace_from re tmpl (if s = [] then prev else Some (last s)) []"
    by (rule replace_from_skip) (use assms in auto)
  moreover have "replace_from re tmpl q [] = []" for q
    using assms [of s "[]" q] by (subst replace_from.simps) simp
  ultimately show ?thesis by simp
qed

lemma replace_step:
  "matches re (q, s, []) = [] \<Longrightarrow> replace_from re tmpl q s =
     (case s of [] \<Rightarrow> [] | x # xs \<Rightarrow> x # replace_from re tmpl (Some x) xs)"
  by (subst replace_from.simps) (simp only: list.case)

lemma replace_hit:
  "matches re (q, s, []) = (q', s', caps) # more \<Longrightarrow> length s' < length s \<Longrightarrow>
     replace_from re tmpl q s = tmpl caps @ replace_from re tmpl q' s'"
  by (subst replace_from.simps) (simp only: list.case prod.case if_True)

end
