(* ===== verification/Go_Errors.thy ===== *)
theory Go_Errors
  imports Go_Strings
begin

text \<open>
  Go error values as the program inspects them: the standard library's context, network
  and system-call errors, wrapping with \<open>fmt.Errorf\<close> and \<open>errors.Join\<close>, and any other
  error, of which only the text and, for a network error, the timeout flag are seen.
\<close>

datatype errno = ECONNREFUSED | ETIMEDOUT | EAGAIN | EOther go_string

datatype go_error =
    CtxDeadlineExceeded
  | CtxCanceled
  | IoDeadlineExceeded
  | NetTimeoutError
  | NetCanceledError
  | Errno errno
  | SyscallError go_string go_error
  | OpError go_string go_error
  | ForeignNetError go_string bool
  | ErrorString go_string
  | WrapError go_string go_error
  | JoinError "go_error list"

text \<open>
  \<open>Error()\<close>. The text of \<open>OpError\<close> is the operation, network and addresses; of
  \<open>WrapError\<close>, the format's text before its final \<open>%w\<close>.
\<close>

fun errno_text :: "errno \<Rightarrow> go_string" where
  "errno_text ECONNREFUSED = ''connection refused''"
| "errno_text ETIMEDOUT = ''connection timed out''"
| "errno_text EAGAIN = ''resource temporarily unavailable''"
| "errno_text (EOther s) = s"

fun error_text :: "go_error \<Rightarrow> go_string" where
  "error_text CtxDeadlineExceeded = ''context deadline exceeded''"
| "error_text CtxCanceled = ''context canceled''"
| "error_text IoDeadlineExceeded = ''i/o timeout''"
| "error_text NetTimeoutError = ''i/o timeout''"
| "error_text NetCanceledError = ''operation was canceled''"
| "error_text (Errno e) = errno_text e"
| "error_text (SyscallError s e) = s @ '': '' @ error_text e"
| "error_text (OpError s e) = s @ '': '' @ error_text e"
| "error_text (ForeignNetError s _) = s"
| "error_text (ErrorString s) = s"
| "error_text (WrapError s e) = s @ error_text e"
| "error_text (JoinError es) = join [CHR 0x0A] (map error_text es)"

text \<open>The errors that \<open>errors.Is\<close> and \<open>errors.As\<close> visit, in their order.\<close>

fun chain :: "go_error \<Rightarrow> go_error list" where
  "chain (SyscallError s e) = SyscallError s e # chain e"
| "chain (OpError s e) = OpError s e # chain e"
| "chain (WrapError s e) = WrapError s e # chain e"
| "chain (JoinError es) = JoinError es # concat (map chain es)"
| "chain e = [e]"

text \<open>
  An error is a target if it is the target or its \<open>Is\<close> method says so: the network
  package's own timeout and cancellation errors stand for the context's.
\<close>

definition is_target :: "go_error \<Rightarrow> go_error \<Rightarrow> bool" where
  "is_target e t \<longleftrightarrow> e = t \<or> (e = NetTimeoutError \<and> t = CtxDeadlineExceeded)
     \<or> (e = NetCanceledError \<and> t = CtxCanceled)"

definition errors_is :: "go_error \<Rightarrow> go_error \<Rightarrow> bool" where
  "errors_is e t = list_ex (\<lambda>x. is_target x t) (chain e)"

text \<open>The types with the methods of \<open>net.Error\<close>, and what \<open>Timeout()\<close> answers.\<close>

fun is_net_error :: "go_error \<Rightarrow> bool" where
  "is_net_error CtxDeadlineExceeded = True"
| "is_net_error IoDeadlineExceeded = True"
| "is_net_error NetTimeoutError = True"
| "is_net_error (Errno _) = True"
| "is_net_error (OpError _ _) = True"
| "is_net_error (ForeignNetError _ _) = True"
| "is_net_error _ = False"

fun timeout_flag :: "go_error \<Rightarrow> bool" where
  "timeout_flag CtxDeadlineExceeded = True"
| "timeout_flag IoDeadlineExceeded = True"
| "timeout_flag NetTimeoutError = True"
| "timeout_flag (Errno e) = (e = ETIMEDOUT \<or> e = EAGAIN)"
| "timeout_flag (SyscallError _ e) = timeout_flag e"
| "timeout_flag (OpError _ e) = timeout_flag e"
| "timeout_flag (ForeignNetError _ t) = t"
| "timeout_flag _ = False"

fun is_op_error :: "go_error \<Rightarrow> bool" where
  "is_op_error (OpError _ _) = True"
| "is_op_error _ = False"

definition errors_as :: "(go_error \<Rightarrow> bool) \<Rightarrow> go_error \<Rightarrow> go_error option" where
  "errors_as P e = find P (chain e)"

lemma chain_Wrap:
  "errors_is (WrapError s e) t = (errors_is e t \<or> WrapError s e = t)"
  "errors_as P (WrapError s e) = (if P (WrapError s e) then Some (WrapError s e) else errors_as P e)"
  by (auto simp: errors_is_def errors_as_def is_target_def)

end
