(* ===== verification/Log_Sanitize.thy ===== *)
theory Log_Sanitize
  imports Go_Regexp Go_Errors
begin

text \<open>
  \<open>internal/logging/sanitize.go\<close>: the two credential patterns and their replacement.
\<close>

definition redacted :: go_string where
  "redacted = ''[redacted]''"

section \<open>The patterns\<close>

definition scheme_letter :: "char \<Rightarrow> bool" where
  "scheme_letter c \<longleftrightarrow> 97 \<le> byte c \<and> byte c \<le> 122"

definition scheme_byte :: "char \<Rightarrow> bool" where
  "scheme_byte c \<longleftrightarrow> scheme_letter c \<or> is_digit c \<or> c \<in> {CHR ''+'', CHR ''.'', CHR ''-''}"

definition user_byte :: "char \<Rightarrow> bool" where
  "user_byte c \<longleftrightarrow> \<not> (c \<in> {CHR '':'', CHR ''/'', CHR ''@''} \<or> re_space c)"

definition secret_byte :: "char \<Rightarrow> bool" where
  "secret_byte c \<longleftrightarrow> \<not> (c = CHR ''@'' \<or> re_space c)"

definition value_byte :: "char \<Rightarrow> bool" where
  "value_byte c \<longleftrightarrow> \<not> (re_space c \<or> c \<in> {CHR '','', CHR '';'', CHR '')''})"

definition lit :: "char \<Rightarrow> re" where
  "lit x = Cls (\<lambda>c. c = x)"

text \<open>\<^verbatim>\<open>(?i)([a-z][a-z0-9+.-]*://[^:/@\s]+):([^@\s]+)@\<close>\<close>

definition dsn_pattern :: re where
  "dsn_pattern =
     seqs [Grp 1 (seqs [fold_class scheme_letter, Star (fold_class scheme_byte),
             lit CHR '':'', lit CHR ''/'', lit CHR ''/'', plus (Cls user_byte)]),
           lit CHR '':'', Grp 2 (plus (Cls secret_byte)), lit CHR ''@'']"

definition key_names :: re where
  "key_names =
     alts [fold_lit ''password'', fold_lit ''passwd'', fold_lit ''pwd'', fold_lit ''secret'',
           fold_lit ''token'',
           seqs [fold_lit ''api'', opt (Cls (\<lambda>c. c \<in> {CHR ''_'', CHR ''-''})), fold_lit ''key''],
           fold_lit ''auth'']"

definition quoted :: "char \<Rightarrow> re" where
  "quoted q = seqs [lit q, Star (Cls (\<lambda>c. c \<noteq> q)), lit q]"

text \<open>
  \<^verbatim>\<open>(?i)\b(password|passwd|pwd|secret|token|api[_-]?key|auth)\b\s*[:=]\s*("[^"]*"|'[^']*'|[^\s,;)]+)\<close>
\<close>

definition pair_pattern :: re where
  "pair_pattern =
     seqs [WordB, Grp 1 key_names, WordB, Star (Cls re_space),
           Cls (\<lambda>c. c \<in> {CHR '':'', CHR ''=''}), Star (Cls re_space),
           Grp 2 (alts [quoted CHR 0x22, quoted CHR 0x27, plus (Cls value_byte)])]"

section \<open>Sanitizing\<close>

text \<open>
  \<open>replacementFor\<close>: the pattern whose text holds \<open>://\<close> keeps the user and the at sign, the
  other one rewrites the pair.
\<close>

definition dsn_replacement :: "(nat \<times> go_string) list \<Rightarrow> go_string" where
  "dsn_replacement caps = group 1 caps @ '':'' @ redacted @ ''@''"

definition pair_replacement :: "(nat \<times> go_string) list \<Rightarrow> go_string" where
  "pair_replacement caps = group 1 caps @ ''='' @ redacted"

definition credential_patterns ::
  "(re \<times> ((nat \<times> go_string) list \<Rightarrow> go_string)) list" where
  "credential_patterns = [(dsn_pattern, dsn_replacement), (pair_pattern, pair_replacement)]"

definition sanitize_string :: "go_string \<Rightarrow> go_string" where
  "sanitize_string s = fold (\<lambda>(re, repl) s. replace_all re repl s) credential_patterns s"

definition sanitize_error :: "go_error option \<Rightarrow> go_string" where
  "sanitize_error e = (case e of None \<Rightarrow> '''' | Some err \<Rightarrow> sanitize_string (error_text err))"

end
