(* ===== verification/Sanitize_Properties.thy ===== *)
theory Sanitize_Properties
  imports Log_Sanitize
begin

text \<open>
  What the sanitizer removes, what it leaves alone, and which shapes of a credential its two
  patterns do not cover.
\<close>

section \<open>When a pattern cannot match\<close>

lemma seqs_simps [simp]: "seqs [] = Eps" "seqs (a # rs) = Seq a (seqs rs)"
  by (simp_all add: seqs_def)

lemma set_Seq: "set (matches (Seq a b) s) = (\<Union>m \<in> set (matches a s). set (matches b m))"
  by simp

lemma mem_seqs_append:
  "s' \<in> set (matches (seqs (as @ bs)) s) \<longleftrightarrow>
     (\<exists>m \<in> set (matches (seqs as) s). s' \<in> set (matches (seqs bs) m))"
  by (induction as arbitrary: s) (simp, simp only: append_Cons seqs_simps set_Seq UN_iff bex_UN)

lemma needs_class:
  assumes "s' \<in> set (matches (seqs (as @ Cls P # bs)) s)"
  shows "\<exists>c \<in> set (m_rest s). P c"
proof -
  from assms obtain m where m: "m \<in> set (matches (seqs as) s)"
    and s': "s' \<in> set (matches (seqs (Cls P # bs)) m)"
    using mem_seqs_append by blast
  obtain p r caps where eq: "m = (p, r, caps)" by (cases m)
  from s' have "r \<noteq> [] \<and> P (hd r)"
    unfolding eq by (cases r) (auto split: if_splits)
  moreover have "suffix r (m_rest s)" using matches_suffix [OF m] by (simp add: eq)
  ultimately show ?thesis by (metis hd_in_set set_mono_suffix subsetD)
qed

lemma needs_class':
  assumes "re = seqs (as @ Cls P # bs)" and "matches re s \<noteq> []"
  shows "\<exists>c \<in> set (m_rest s). P c"
proof -
  from assms(2) obtain s' where "s' \<in> set (matches re s)" by (meson last_in_set)
  then show ?thesis unfolding assms(1) by (rule needs_class)
qed

definition dsn_head :: re where
  "dsn_head = Grp 1 (seqs [fold_class scheme_letter, Star (fold_class scheme_byte),
             lit CHR '':'', lit CHR ''/'', lit CHR ''/'', plus (Cls user_byte)])"

lemma dsn_parts:
  "dsn_pattern = seqs ([dsn_head] @ Cls (\<lambda>c. c = CHR '':'') #
     [Grp 2 (plus (Cls secret_byte)), lit CHR ''@''])"
  "dsn_pattern = seqs ([dsn_head, lit CHR '':'', Grp 2 (plus (Cls secret_byte))] @
     Cls (\<lambda>c. c = CHR ''@'') # [])"
  by (simp_all only: dsn_pattern_def dsn_head_def lit_def append.simps)

lemma dsn_needs:
  assumes "matches dsn_pattern s \<noteq> []"
  shows "CHR ''@'' \<in> set (m_rest s)" "CHR '':'' \<in> set (m_rest s)"
  using needs_class' [OF dsn_parts(2) assms] needs_class' [OF dsn_parts(1) assms] by simp_all

abbreviation sep_byte :: "char \<Rightarrow> bool" where
  "sep_byte c \<equiv> c \<in> {CHR '':'', CHR ''=''}"

definition pair_value :: re where
  "pair_value = Grp 2 (alts [quoted CHR 0x22, quoted CHR 0x27, plus (Cls value_byte)])"

lemma pair_parts:
  "pair_pattern = seqs ([WordB, Grp 1 key_names, WordB, Star (Cls re_space)] @
     Cls sep_byte # [Star (Cls re_space), pair_value])"
  by (simp only: pair_pattern_def pair_value_def append.simps)

lemma pair_needs: "matches pair_pattern s \<noteq> [] \<Longrightarrow> \<exists>c \<in> set (m_rest s). sep_byte c"
  by (rule needs_class' [OF pair_parts])

lemma replace_all_copy:
  assumes "\<And>p u v. s = u @ v \<Longrightarrow> matches re (p, v, []) = []"
  shows "replace_all re tmpl s = s"
  unfolding replace_all_def by (rule replace_from_copy) (rule assms)

lemma dsn_copy:
  assumes "CHR ''@'' \<notin> set s \<or> CHR '':'' \<notin> set s"
  shows "replace_all dsn_pattern tmpl s = s"
proof (rule replace_all_copy, rule ccontr)
  fix p u v assume "s = u @ v" "matches dsn_pattern (p, v, []) \<noteq> []"
  with assms dsn_needs [of "(p, v, [])"] show False by auto
qed

lemma pair_copy:
  assumes "\<forall>c \<in> set s. \<not> sep_byte c"
  shows "replace_from pair_pattern tmpl p s = s"
proof (rule replace_from_copy, rule ccontr)
  fix p u v assume "s = u @ v" "matches pair_pattern (p, v, []) \<noteq> []"
  with assms pair_needs [of "(p, v, [])"] show False by auto
qed

lemma sanitize_string_eq:
  "sanitize_string s =
     replace_all pair_pattern pair_replacement (replace_all dsn_pattern dsn_replacement s)"
  by (simp add: sanitize_string_def credential_patterns_def)

text \<open>
  Text without a colon and without an equals sign passes through the sanitizer
  unchanged: the patterns only ever touch userinfo and key-value pairs.
\<close>

theorem sanitize_leaves_clean_text:
  assumes "CHR '':'' \<notin> set s" and "CHR ''='' \<notin> set s"
  shows "sanitize_string s = s"
  using assms dsn_copy pair_copy [of s] by (auto simp: sanitize_string_eq replace_all_def)

theorem sanitize_leaves_clean_text_witness:
  "sanitize_string ''connection refused by broker'' = ''connection refused by broker''"
  by (rule sanitize_leaves_clean_text) simp_all

section \<open>Key-value pairs\<close>

definition secret_keys :: "go_string list" where
  "secret_keys = [''password'', ''passwd'', ''pwd'', ''secret'', ''token'', ''api_key'', ''api-key'',
     ''apikey'', ''auth'']"

definition key_byte :: "char \<Rightarrow> bool" where
  "key_byte c \<longleftrightarrow> \<not> re_space c \<and> \<not> sep_byte c"

lemma key_names_over: "over key_byte key_names"
  by (auto simp: key_names_def fold_lit_def fold_char_def long_s_def kelvin_def opt_def Let_def
      key_byte_def re_space_def lower_byte_def byte_def)

text \<open>A key the sanitizer knows, in any case.\<close>

definition secret_key :: "go_string \<Rightarrow> bool" where
  "secret_key key \<longleftrightarrow> map lower_byte key \<in> set secret_keys"

lemma byte_lower: "byte (lower_byte c) = (if 65 \<le> byte c \<and> byte c \<le> 90 then byte c + 32 else byte c)"
  by (simp add: lower_byte_def byte_def)

lemma folded_byte:
  "key_byte (lower_byte c) \<Longrightarrow> key_byte c" "word_byte (lower_byte c) \<Longrightarrow> word_byte c"
proof -
  show "key_byte (lower_byte c) \<Longrightarrow> key_byte c"
    by (auto simp: key_byte_def re_space_def lower_byte_def byte_def split: if_splits)
  show "word_byte (lower_byte c) \<Longrightarrow> word_byte c"
    by (auto simp: word_byte_def is_digit_def byte_lower lower_byte_def split: if_splits)
qed

lemma fold_char_hit:
  assumes "lower_byte c = x" "97 \<le> byte x" "byte x \<le> 122"
  shows "matches (fold_char x) (p, c # r, caps) = [(Some c, r, caps)]"
proof -
  have "byte c < 128" using assms byte_lower [of c] by (auto split: if_splits)
  then have "c \<noteq> CHR 0xC5" "c \<noteq> CHR 0xE2" by (auto simp: byte_def)
  with assms(1) show ?thesis by (simp add: fold_char_def Let_def long_s_def kelvin_def)
qed

lemma fold_char_miss:
  assumes "lower_byte c \<noteq> x" "byte c < 128"
  shows "matches (fold_char x) (p, c # r, caps) = []"
proof -
  have "c \<noteq> CHR 0xC5" "c \<noteq> CHR 0xE2" using assms(2) by (auto simp: byte_def)
  with assms(1) show ?thesis by (auto simp: fold_char_def Let_def long_s_def kelvin_def)
qed

lemma secret_keys_ascii: "key \<in> set secret_keys \<Longrightarrow> c \<in> set key \<Longrightarrow> byte c < 128"
  unfolding secret_keys_def by (auto simp: byte_def)

lemma secret_key_ascii:
  assumes "secret_key key" "c \<in> set key"
  shows "byte c < 128"
proof -
  have "byte (lower_byte c) < 128"
    by (rule secret_keys_ascii [of "map lower_byte key"]) (use assms in \<open>auto simp: secret_key_def\<close>)
  then show ?thesis by (simp add: byte_lower split: if_splits)
qed

lemma lower_byte_joiner [simp]:
  "lower_byte c = CHR ''_'' \<longleftrightarrow> c = CHR ''_''" "lower_byte c = CHR ''-'' \<longleftrightarrow> c = CHR ''-''"
proof -
  have "byte (CHR ''_'') = 95" "byte (CHR ''-'') = 45" by (simp_all add: byte_def)
  then show "lower_byte c = CHR ''_'' \<longleftrightarrow> c = CHR ''_''" "lower_byte c = CHR ''-'' \<longleftrightarrow> c = CHR ''-''"
    using byte_lower [of c] by (auto simp: lower_byte_def split: if_splits)
qed

lemma lower_joiners [simp]:
  "lower_byte CHR ''_'' = CHR ''_''" "lower_byte CHR ''-'' = CHR ''-''"
  by (simp_all add: lower_byte_def byte_def)

lemma match_key:
  assumes "secret_key key"
  shows "matches key_names (q, key @ t, caps) = [(Some (last key), t, caps)]"
proof -
  have "\<forall>c \<in> set key. byte c < 128" using secret_key_ascii [OF assms] by blast
  with assms show ?thesis
    unfolding secret_key_def secret_keys_def
    by (simp add: map_eq_Cons_conv, elim disjE exE conjE)
      (simp_all add: key_names_def fold_lit_def opt_def fold_char_hit fold_char_miss byte_def)
qed
lemma secret_keys_shape:
  assumes "key \<in> set secret_keys"
  shows "key \<noteq> []" "\<forall>c \<in> set key. key_byte c" "word_byte (hd key)" "word_byte (last key)"
    "CHR ''@'' \<notin> set key"
  using assms unfolding secret_keys_def
  by (auto simp: word_byte_def byte_def key_byte_def re_space_def)

lemma secret_key_shape:
  assumes "secret_key key"
  shows "key \<noteq> []" "word_byte (hd key)" "word_byte (last key)" "\<forall>c \<in> set key. key_byte c"
    "CHR ''@'' \<notin> set key"
proof -
  note shape = secret_keys_shape [of "map lower_byte key"]
  show ne: "key \<noteq> []" using shape(1) assms by (auto simp: secret_key_def)
  show "word_byte (hd key)" "word_byte (last key)" "\<forall>c \<in> set key. key_byte c"
    using shape(2-4) assms ne folded_byte by (auto simp: secret_key_def hd_map last_map)
  have "lower_byte CHR ''@'' = CHR ''@''" by (simp add: lower_byte_def byte_def)
  then show "CHR ''@'' \<notin> set key"
    using shape(5) assms by (metis image_eqI image_set secret_key_def)
qed

text \<open>A value: a run of bytes that may stand unquoted, or quoted text.\<close>

definition quote_byte :: "char \<Rightarrow> bool" where
  "quote_byte c \<longleftrightarrow> c \<in> {CHR 0x22, CHR 0x27}"

definition secret_value :: "go_string \<Rightarrow> bool" where
  "secret_value v \<longleftrightarrow>
     v \<noteq> [] \<and> (\<forall>c \<in> set v. value_byte c) \<and> \<not> quote_byte (hd v) \<or>
     (\<exists>q body. quote_byte q \<and> q \<notin> set body \<and> v = q # body @ [q])"

text \<open>The first way in which a pattern matches, which is the one that counts.\<close>

definition hits :: "re \<Rightarrow> mstate \<Rightarrow> mstate \<Rightarrow> bool" where
  "hits re s m \<longleftrightarrow> (\<exists>tl. matches re s = m # tl)"

lemma hits_intros:
  "hits a s m \<Longrightarrow> hits b m x \<Longrightarrow> hits (Seq a b) s x"
  "hits Eps s s"
  "P c \<Longrightarrow> hits (Cls P) (q, c # r, caps) (Some c, r, caps)"
  "hits a s m \<Longrightarrow> hits (Grp k a) s (capture k (m_rest s) m)"
  "at_boundary s \<Longrightarrow> hits WordB s s"
  "hits a s m \<Longrightarrow> hits (Alt a b) s m"
  "matches a s = [] \<Longrightarrow> hits b s m \<Longrightarrow> hits (Alt a b) s m"
  by (auto simp: hits_def)

lemma hits_run:
  assumes "\<forall>c \<in> set w. P c" "r = [] \<or> \<not> P (hd r)"
  shows "hits (Star (Cls P)) (q, w @ r, caps) (if w = [] then q else Some (last w), r, caps)"
proof -
  have "matches (Cls P) = match_class P" by (rule ext) simp
  with star_class_hd [OF assms, of "length r" q caps] show ?thesis by (simp add: hits_def)
qed

lemma hits_plus:
  assumes "v \<noteq> []" "\<forall>c \<in> set v. P c" "r = [] \<or> \<not> P (hd r)"
  shows "hits (plus (Cls P)) (q, v @ r, caps) (Some (last v), r, caps)"
proof -
  obtain x w where v: "v = x # w" using assms(1) by (cases v) auto
  from hits_run [of w P r "Some x" caps] assms have
    "hits (Star (Cls P)) (Some x, w @ r, caps) (Some (last v), r, caps)"
    by (simp add: v split: if_splits)
  moreover have "hits (Cls P) (q, v @ r, caps) (Some x, w @ r, caps)"
    using assms(2) hits_intros(3) [of P x] by (simp add: v)
  ultimately show ?thesis unfolding plus_def by (rule hits_intros(1) [rotated])
qed

lemma hits_quoted:
  assumes "q \<notin> set body"
  shows "hits (quoted q) (p, (q # body @ [q]) @ r, caps) (Some q, r, caps)"
proof -
  let ?m = "if body = [] then Some q else Some (last body)"
  have "\<forall>c \<in> set body. c \<noteq> q" using assms by auto
  from hits_run [OF this, of "q # r" "Some q" caps]
  have "hits (Star (Cls (\<lambda>c. c \<noteq> q))) (Some q, body @ q # r, caps) (?m, q # r, caps)" by simp
  then show ?thesis
    unfolding quoted_def seqs_simps lit_def append.simps append_assoc
    by (intro hits_intros(1) [OF hits_intros(3)] hits_intros(2), simp)
      (rule hits_intros(1), assumption, intro hits_intros(1) [OF hits_intros(3)] hits_intros(2), simp)
qed

text \<open>At a key whose value runs up to \<open>rest\<close>, the whole pair is the match.\<close>

lemma hits_value:
  assumes "secret_value v" "rest = [] \<or> \<not> value_byte (hd rest)"
  shows "hits pair_value (q, v @ rest, caps) (Some (last v), rest, (2, v) # caps)"
proof -
  let ?alts = "alts [quoted CHR 0x22, quoted CHR 0x27, plus (Cls value_byte)]"
  have none: "matches (quoted c) (q, v @ rest, caps) = []" if "v \<noteq> []" "hd v \<noteq> c" for c
    using that by (cases v) (auto simp: quoted_def lit_def)
  have "hits ?alts (q, v @ rest, caps) (Some (last v), rest, caps)"
    using assms(1) unfolding secret_value_def
  proof (elim disjE exE conjE)
    assume "v \<noteq> []" "\<forall>c \<in> set v. value_byte c" "\<not> quote_byte (hd v)"
    with none hits_plus [where P = value_byte, OF _ _ assms(2)] show ?thesis
      by (simp add: hits_intros(7) quote_byte_def)
  next
    fix c body assume c: "quote_byte c" "c \<notin> set body" "v = c # body @ [c]"
    from hits_quoted [OF c(2)] have "hits (quoted c) (q, v @ rest, caps) (Some (last v), rest, caps)"
      by (simp add: c(3))
    with c(1,3) none show ?thesis by (auto simp: quote_byte_def intro: hits_intros(6,7))
  qed
  from hits_intros(4) [OF this, of 2] show ?thesis by (simp add: pair_value_def capture_def)
qed

lemma hits_pair:
  assumes "secret_key key" "\<forall>c \<in> set w1. re_space c" "sep_byte sep" "\<forall>c \<in> set w2. re_space c"
    "secret_value v" "rest = [] \<or> \<not> value_byte (hd rest)"
    "q = None \<or> (\<exists>c. q = Some c \<and> re_space c)"
  shows "hits pair_pattern (q, key @ w1 @ sep # w2 @ v @ rest, []) (Some (last v), rest, [(2, v), (1, key)])"
proof -
  note shape = secret_key_shape [OF assms(1)]
  have nonword: "\<not> word_byte c" if "re_space c \<or> sep_byte c" for c
    using that by (auto simp: re_space_def word_byte_def is_digit_def byte_def)
  have b1: "at_boundary (q, key @ w1 @ sep # w2 @ v @ rest, [])"
  proof -
    obtain x t where "key = x # t" using shape(1) by (cases key) auto
    moreover have "\<not> (case q of None \<Rightarrow> False | Some c \<Rightarrow> word_byte c)"
      using assms(7) nonword by (cases q) simp_all
    ultimately show ?thesis using shape(2) by (simp add: at_boundary_def)
  qed
  have "\<not> word_byte (hd (w1 @ [sep]))" using nonword assms(2,3) by (cases w1) auto
  then have b2: "at_boundary (Some (last key), w1 @ sep # w2 @ v @ rest, caps)" for caps
    using shape(3) by (cases w1) (auto simp: at_boundary_def)
  have k: "hits (Grp 1 key_names) (q, key @ w1 @ sep # w2 @ v @ rest, [])
      (Some (last key), w1 @ sep # w2 @ v @ rest, [(1, key)])"
    using match_key [OF assms(1)] by (simp add: hits_def capture_def)
  have s1: "hits (Star (Cls re_space)) (q', w1 @ sep # w2 @ v @ rest, caps)
      (if w1 = [] then q' else Some (last w1), sep # w2 @ v @ rest, caps)" for q' caps
    by (rule hits_run [OF assms(2)]) (use assms(3) in \<open>auto simp: re_space_def\<close>)
  have "v \<noteq> []" "\<not> re_space (hd v)"
    using assms(5) by (cases v; auto simp: secret_value_def quote_byte_def value_byte_def re_space_def)+
  then have s2: "hits (Star (Cls re_space)) (q', w2 @ v @ rest, caps)
      (if w2 = [] then q' else Some (last w2), v @ rest, caps)" for q' caps
    by (intro hits_run [OF assms(4)]) (cases v; simp)
  show ?thesis
    unfolding pair_parts append.simps seqs_simps
    by (rule hits_intros(1) [OF hits_intros(5) [OF b1]], rule hits_intros(1) [OF k],
        rule hits_intros(1) [OF hits_intros(5) [OF b2]], rule hits_intros(1) [OF s1],
        rule hits_intros(1) [OF hits_intros(3) [where P = sep_byte, OF assms(3)]], rule hits_intros(1) [OF s2],
        rule hits_intros(1) [OF hits_value [OF assms(5,6)] hits_intros(2)])
qed

lemma seq_split:
  "s' \<in> set (matches (Seq a b) s) \<Longrightarrow> \<exists>m \<in> set (matches a s). s' \<in> set (matches b m)"
  by auto

text \<open>No match starts in front of white space that stands before a key.\<close>

lemma split_straddle:
  assumes "u @ key @ t = w1 @ w2 @ r" "u \<noteq> []" "re_space (last u)" "\<forall>c \<in> set u. \<not> sep_byte c"
    "key \<noteq> []" "key_byte (hd key)" "\<forall>c \<in> set w1. key_byte c" "\<forall>c \<in> set w2. re_space c"
    "r \<noteq> []" "sep_byte (hd r)"
  shows False
proof -
  from assms(1) have eq: "u @ (key @ t) = (w1 @ w2) @ r" by simp
  consider y where "w1 @ w2 = u @ y" "key @ t = y @ r"
    | y where "y \<noteq> []" "u = (w1 @ w2) @ y" "r = y @ key @ t"
  proof -
    from append_eq_append_conv2 [THEN iffD1, OF eq] obtain y where
      y: "u = (w1 @ w2) @ y \<and> y @ key @ t = r \<or> u @ y = w1 @ w2 \<and> key @ t = y @ r" by blast
    then show thesis using that by (cases "y = []") (metis append_Nil append_Nil2)+
  qed
  then show False
  proof cases
    case 1
    have "\<not> prefix u w1"
    proof
      assume "prefix u w1"
      then have "last u \<in> set w1" using assms(2) by (meson last_in_set set_mono_prefix subsetD)
      with assms(3,7) show False by (auto simp: key_byte_def)
    qed
    with append_eq_append_conv2 [THEN iffD1, OF 1(1)] obtain z where "w2 = z @ y"
      by (auto simp: prefix_def)
    with assms(8) have sp: "\<forall>c \<in> set y. re_space c" by auto
    have "hd y = hd key" if "y \<noteq> []"
      using 1(2) that assms(5) by (metis hd_append2)
    then have "y = []" using sp assms(6) by (cases y) (auto simp: key_byte_def)
    with 1(2) assms(5,6,10) show False by (auto simp: key_byte_def)
  next
    case 2
    then have "hd r \<in> set u" by (cases y) auto
    with assms(4,10) show False by blast
  qed
qed

lemma pair_no_straddle:
  assumes "u \<noteq> []" "re_space (last u)" "\<forall>c \<in> set u. \<not> sep_byte c" "secret_key key"
  shows "matches pair_pattern (q, u @ key @ t, caps) = []"
proof (rule ccontr)
  let ?s = "(q, u @ key @ t, caps) :: mstate"
  assume "matches pair_pattern ?s \<noteq> []"
  then obtain s' where s': "s' \<in> set (matches pair_pattern ?s)" by (meson last_in_set)
  from s' obtain m4 where m4:
    "m4 \<in> set (matches (seqs [WordB, Grp 1 key_names, WordB, Star (Cls re_space)]) ?s)"
    "s' \<in> set (matches (seqs (Cls sep_byte # [Star (Cls re_space), pair_value])) m4)"
    unfolding pair_parts mem_seqs_append by blast
  from m4(1) have "m4 \<in> set (matches (seqs ([WordB, Grp 1 key_names, WordB] @ [Star (Cls re_space)])) ?s)"
    by (simp only: append.simps)
  then obtain m3 where m3: "m3 \<in> set (matches (seqs [WordB, Grp 1 key_names, WordB]) ?s)"
    "m4 \<in> set (matches (seqs [Star (Cls re_space)]) m3)"
    unfolding mem_seqs_append by blast
  have "over key_byte (seqs [WordB, Grp 1 key_names, WordB])" using key_names_over by simp
  from matches_consume [OF this m3(1)] obtain w1 where
    w1: "u @ key @ t = w1 @ m_rest m3" "\<forall>c \<in> set w1. key_byte c" by (auto simp: consumes_def)
  have "over re_space (seqs [Star (Cls re_space)])" by simp
  from matches_consume [OF this m3(2)] obtain w2 where
    w2: "m_rest m3 = w2 @ m_rest m4" "\<forall>c \<in> set w2. re_space c" by (auto simp: consumes_def)
  obtain p r cs where m: "m4 = (p, r, cs)" by (cases m4)
  from m4(2) have "\<exists>m \<in> set (matches (Cls sep_byte) m4). s' \<in> set (matches (seqs [Star (Cls re_space), pair_value]) m)"
    unfolding seqs_simps by (rule seq_split)
  then have "r \<noteq> [] \<and> sep_byte (hd r)"
    unfolding m by (cases r) (auto simp del: seqs_simps split: if_splits)
  moreover note secret_key_shape [OF assms(4)]
  ultimately show False
    using split_straddle [of u key t w1 w2 r] w1 w2 assms m by (cases key) auto
qed

text \<open>A byte that ends an unquoted value starts no pair.\<close>

lemma no_pair_at_end:
  assumes "rest = [] \<or> \<not> value_byte (hd rest)"
  shows "matches pair_pattern (q, rest, caps) = []"
proof -
  have "over value_byte key_names" "nonempty key_names"
    by (auto simp: key_names_def fold_lit_def fold_char_def long_s_def kelvin_def opt_def Let_def
      value_byte_def re_space_def lower_byte_def byte_def)
  then have "matches (Grp 1 key_names) (q, rest, caps) = []"
    using assms by (intro no_match_at [of value_byte]) auto
  then have none: "matches (Seq (Grp 1 key_names) a) (q, rest, caps) = []" for a
    unfolding matches.simps(3) by (simp only: list.map concat.simps)
  have "matches (Seq WordB r) s = (if at_boundary s then matches r s else [])" for r s by simp
  then show ?thesis
    unfolding pair_parts append.simps seqs_simps by (simp only: none if_cancel)
qed

lemma replace_at_end:
  assumes "rest = [] \<or> \<not> value_byte (hd rest)"
  shows "replace_from pair_pattern tmpl q rest = replace_all pair_pattern tmpl rest"
  unfolding replace_all_def replace_step [OF no_pair_at_end [OF assms]] ..

lemma replace_pair:
  assumes "secret_key key" "\<forall>c \<in> set w1. re_space c" "sep_byte sep" "\<forall>c \<in> set w2. re_space c"
    "secret_value v" "rest = [] \<or> \<not> value_byte (hd rest)"
    "\<forall>c \<in> set p. \<not> sep_byte c" "p = [] \<or> re_space (last p)"
  shows "replace_all pair_pattern pair_replacement (p @ key @ w1 @ sep # w2 @ v @ rest) =
    p @ key @ ''=[redacted]'' @ replace_all pair_pattern pair_replacement rest"
proof -
  let ?t = "key @ w1 @ sep # w2 @ v @ rest" and ?q = "if p = [] then None else Some (last p)"
  have "replace_from pair_pattern pair_replacement None (p @ ?t) =
      p @ replace_from pair_pattern pair_replacement ?q ?t"
  proof (rule replace_from_skip)
    fix u x w assume "p = u @ x # w"
    then have "re_space (last (x # w))" "\<forall>c \<in> set (x # w). \<not> sep_byte c"
      using assms(7,8) by auto
    then have "matches pair_pattern (q', (x # w) @ ?t, []) = []" for q'
      by (rule pair_no_straddle [OF list.distinct(2) _ _ assms(1)])
    then show "matches pair_pattern (if u = [] then None else Some (last u), x # w @ ?t, []) = []"
      by (simp only: append_Cons)
  qed
  moreover have sp: "?q = None \<or> (\<exists>c. ?q = Some c \<and> re_space c)" using assms(8) by auto
  obtain tl where hit: "matches pair_pattern (?q, ?t, []) =
      (Some (last v), rest, [(2, v), (1, key)]) # tl"
    using hits_pair [OF assms(1-6) sp] by (auto simp: hits_def)
  have "length rest < length ?t" by simp
  note replace_hit [OF hit this, of pair_replacement]
  moreover have "pair_replacement [(2, v), (1, key)] = key @ ''=[redacted]''"
    by (simp add: pair_replacement_def group_def redacted_def)
  moreover note replace_at_end [OF assms(6), of pair_replacement "Some (last v)"]
  ultimately show ?thesis
    unfolding replace_all_def by (simp only: append_assoc)
qed



section \<open>Connection strings\<close>

text \<open>A repeated one-byte pattern takes a whole run of its bytes first.\<close>

lemma star_run_hd:
  assumes "\<forall>c \<in> set w. P c" "\<And>p x t. P x \<Longrightarrow> step (p, x # t, caps) = [(Some x, t, caps)]"
    "\<And>p. step (p, r, caps) = []"
  shows "\<exists>more. star_iter step (length w + n) (p, w @ r, caps)
    = ((if w = [] then p else Some (last w)), r, caps) # more"
  using assms(1)
proof (induction w arbitrary: p)
  case Nil
  show ?case by (simp add: star_iter_stuck assms(3))
next
  case (Cons x w)
  then obtain more where "star_iter step (length w + n) (Some x, w @ r, caps)
      = ((if w = [] then Some x else Some (last w)), r, caps) # more"
    by fastforce
  with Cons.prems show ?case by (auto simp: assms(2))
qed

lemma fold_scheme_byte:
  "scheme_byte (lower_byte x) \<Longrightarrow>
     matches (fold_class scheme_byte) (p, x # t, caps) = [(Some x, t, caps)]"
  "matches (fold_class scheme_byte) (p, CHR '':'' # t, caps) = []"
  "scheme_letter (lower_byte x) \<Longrightarrow>
     matches (fold_class scheme_letter) (p, x # t, caps) = [(Some x, t, caps)]"
  by (auto simp: fold_class_def long_s_def kelvin_def scheme_byte_def scheme_letter_def
      lower_byte_def byte_def is_digit_def split: if_splits)

definition scheme_ok :: "go_string \<Rightarrow> bool" where
  "scheme_ok s \<longleftrightarrow> s \<noteq> [] \<and> scheme_letter (lower_byte (hd s)) \<and>
     (\<forall>c \<in> set s. scheme_byte (lower_byte c))"

definition user_ok :: "go_string \<Rightarrow> bool" where
  "user_ok u \<longleftrightarrow> u \<noteq> [] \<and> (\<forall>c \<in> set u. user_byte c)"

definition secret_ok :: "go_string \<Rightarrow> bool" where
  "secret_ok v \<longleftrightarrow> v \<noteq> [] \<and> (\<forall>c \<in> set v. secret_byte c)"

lemma matches_plus_run:
  assumes "w \<noteq> []" "\<forall>c \<in> set w. P c" "r = [] \<or> \<not> P (hd r)"
  shows "\<exists>more. matches (plus (Cls P)) (q, w @ r, caps) = (Some (last w), r, caps) # more"
proof -
  obtain x w' where w: "w = x # w'" using assms(1) by (cases w) auto
  have "matches (Cls P) = match_class P" by (rule ext) simp
  with star_class_hd [of w' P r "length r" "Some x" caps] assms(2,3) w show ?thesis
    by (auto simp: plus_def)
qed

lemma seq_hd:
  "matches a s = m # more \<Longrightarrow> \<exists>tl. matches b m = m' # tl \<Longrightarrow> \<exists>tl. matches (Seq a b) s = m' # tl"
  by auto

lemma capture_append: "capture k (w @ r) (p, r, caps) = (p, r, (k, w) # caps)"
  by (simp add: capture_def)

lemma match_dsn_head:
  assumes "scheme_ok scheme" "user_ok user"
  shows "\<exists>more. matches dsn_head (q, scheme @ ''://'' @ user @ CHR '':'' # t, [])
    = (Some (last user), CHR '':'' # t, [(1, scheme @ ''://'' @ user)]) # more"
proof -
  obtain x sc where sc: "scheme = x # sc" using assms(1) by (cases scheme) (auto simp: scheme_ok_def)
  let ?r = "''://'' @ user @ CHR '':'' # t"
  from star_run_hd [of sc "\<lambda>c. scheme_byte (lower_byte c)" "matches (fold_class scheme_byte)" "[]" ?r
      "length ?r" "Some x"] assms(1)
  obtain m1 where m1: "matches (Star (fold_class scheme_byte)) (Some x, sc @ ?r, [])
      = ((if sc = [] then Some x else Some (last sc)), ?r, []) # m1"
    by (auto simp: fold_scheme_byte scheme_ok_def sc)
  from matches_plus_run [of user user_byte "CHR '':'' # t" "Some CHR ''/''" "[]"] assms(2)
  obtain m2 where m2: "matches (plus (Cls user_byte)) (Some CHR ''/'', user @ CHR '':'' # t, [])
      = (Some (last user), CHR '':'' # t, []) # m2"
    by (auto simp: user_ok_def user_byte_def)
  have "\<exists>tl. matches (seqs [lit CHR '':'', lit CHR ''/'', lit CHR ''/'', plus (Cls user_byte)])
      (p, ?r, []) = (Some (last user), CHR '':'' # t, []) # tl" for p
    using m2 by (simp add: lit_def)
  from seq_hd [OF m1 this]
  have "\<exists>tl. matches (seqs [Star (fold_class scheme_byte),
             lit CHR '':'', lit CHR ''/'', lit CHR ''/'', plus (Cls user_byte)]) (Some x, sc @ ?r, [])
      = (Some (last user), CHR '':'' # t, []) # tl" by (simp only: seqs_simps)
  from seq_hd [OF fold_scheme_byte(3) [of x q "sc @ ?r" "[]"] this]
  obtain more where "matches (seqs [fold_class scheme_letter, Star (fold_class scheme_byte),
             lit CHR '':'', lit CHR ''/'', lit CHR ''/'', plus (Cls user_byte)]) (q, x # sc @ ?r, [])
      = (Some (last user), CHR '':'' # t, []) # more"
    using assms(1) by (auto simp: scheme_ok_def sc simp del: matches.simps)
  then show ?thesis
    unfolding dsn_head_def matches.simps(6)
    using capture_append [of 1 "scheme @ ''://'' @ user" "CHR '':'' # t"]
    by (auto simp: sc simp del: seqs_simps)
qed

lemma match_dsn:
  assumes "scheme_ok scheme" "user_ok user" "secret_ok v"
  shows "\<exists>more. matches dsn_pattern (q, scheme @ ''://'' @ user @ '':'' @ v @ ''@'' @ rest, [])
    = (Some CHR ''@'', rest, [(2, v), (1, scheme @ ''://'' @ user)]) # more"
proof -
  let ?caps = "[(1, scheme @ ''://'' @ user)]" and ?t = "v @ CHR ''@'' # rest"
  obtain m1 where m1: "matches dsn_head (q, scheme @ ''://'' @ user @ CHR '':'' # ?t, [])
      = (Some (last user), CHR '':'' # ?t, ?caps) # m1"
    using match_dsn_head [OF assms(1,2)] by (rule exE)
  from matches_plus_run [of v secret_byte "CHR ''@'' # rest" "Some CHR '':''" ?caps] assms(3)
  obtain m2 where m2: "matches (plus (Cls secret_byte)) (Some CHR '':'', ?t, ?caps)
      = (Some (last v), CHR ''@'' # rest, ?caps) # m2"
    by (auto simp: secret_ok_def secret_byte_def)
  have m3: "\<exists>m3. matches (Grp 2 (plus (Cls secret_byte))) (Some CHR '':'', ?t, ?caps)
      = (Some (last v), CHR ''@'' # rest, (2, v) # ?caps) # m3"
    using m2 capture_append [of 2 v "CHR ''@'' # rest"] by (simp del: append.simps append_assoc)
  then have "\<exists>tl. matches (seqs [lit CHR '':'', Grp 2 (plus (Cls secret_byte)), lit CHR ''@''])
      (Some (last user), CHR '':'' # ?t, ?caps) = (Some CHR ''@'', rest, (2, v) # ?caps) # tl"
    by (auto simp: lit_def simp del: matches.simps(6))
  from seq_hd [OF m1 this] show ?thesis
    unfolding dsn_parts(1) lit_def by simp
qed

lemma dsn_no_straddle:
  assumes "u \<noteq> []" "re_space (last u)" "\<forall>c \<in> set u. \<not> sep_byte c" "scheme_ok scheme"
  shows "matches dsn_pattern (q, u @ scheme @ t, caps) = []"
proof (rule ccontr)
  let ?s = "(q, u @ scheme @ t, caps) :: mstate"
  let ?pre = "seqs [fold_class scheme_letter, Star (fold_class scheme_byte)]"
  assume "matches dsn_pattern ?s \<noteq> []"
  then obtain s' where s': "s' \<in> set (matches dsn_pattern ?s)" by (meson last_in_set)
  then obtain m where "m \<in> set (matches dsn_head ?s)"
    unfolding dsn_parts append.simps seqs_simps set_Seq by blast
  then obtain m0 where "m0 \<in> set (matches (seqs ([fold_class scheme_letter, Star (fold_class scheme_byte)] @
      Cls (\<lambda>c. c = CHR '':'') # [lit CHR ''/'', lit CHR ''/'', plus (Cls user_byte)])) ?s)"
    unfolding dsn_head_def lit_def append.simps matches.simps(6) set_map by blast
  then obtain m1 where m1: "m1 \<in> set (matches ?pre ?s)"
    "m0 \<in> set (matches (seqs (Cls (\<lambda>c. c = CHR '':'') # [lit CHR ''/'', lit CHR ''/'', plus (Cls user_byte)])) m1)"
    unfolding mem_seqs_append by blast
  have "over key_byte ?pre"
    by (auto simp: fold_class_def long_s_def kelvin_def key_byte_def scheme_byte_def scheme_letter_def
        lower_byte_def byte_def is_digit_def re_space_def)
  from matches_consume [OF this m1(1)] obtain w1 where
    w1: "u @ scheme @ t = w1 @ m_rest m1" "\<forall>c \<in> set w1. key_byte c" by (auto simp: consumes_def)
  obtain p r cs where m: "m1 = (p, r, cs)" by (cases m1)
  from m1(2) have "\<exists>m \<in> set (matches (Cls (\<lambda>c. c = CHR '':'')) m1). m0 \<in> set (matches
      (seqs [lit CHR ''/'', lit CHR ''/'', plus (Cls user_byte)]) m)"
    unfolding seqs_simps by (rule seq_split)
  then have "r \<noteq> [] \<and> sep_byte (hd r)"
    unfolding m by (cases r) (auto simp del: seqs_simps split: if_splits)
  moreover from assms(4) have "scheme \<noteq> []" "key_byte (hd scheme)"
    by (auto simp: scheme_ok_def scheme_letter_def lower_byte_def byte_def key_byte_def re_space_def)
  ultimately show False
    using split_straddle [of u scheme t w1 "[]" r] w1 assms m by auto
qed
lemma replace_dsn:
  assumes "scheme_ok scheme" "user_ok user" "secret_ok v"
    "\<forall>c \<in> set p. \<not> sep_byte c" "p = [] \<or> re_space (last p)" "CHR ''@'' \<notin> set rest"
  shows "replace_all dsn_pattern dsn_replacement
      (p @ scheme @ ''://'' @ user @ '':'' @ v @ ''@'' @ rest) =
    p @ scheme @ ''://'' @ user @ '':[redacted]@'' @ rest"
proof -
  let ?t = "scheme @ ''://'' @ user @ '':'' @ v @ ''@'' @ rest"
    and ?q = "if p = [] then None else Some (last p)"
  have "replace_from dsn_pattern dsn_replacement None (p @ ?t) =
      p @ replace_from dsn_pattern dsn_replacement ?q ?t"
  proof (rule replace_from_skip)
    fix u x w assume "p = u @ x # w"
    then have "re_space (last (x # w))" "\<forall>c \<in> set (x # w). \<not> sep_byte c"
      using assms(4,5) by auto
    then have "matches dsn_pattern (q', (x # w) @ ?t, []) = []" for q'
      by (rule dsn_no_straddle [OF list.distinct(2) _ _ assms(1)])
    then show "matches dsn_pattern (if u = [] then None else Some (last u), x # w @ ?t, []) = []"
      by (simp only: append_Cons)
  qed
  moreover
  obtain tl where hit: "matches dsn_pattern (?q, ?t, []) =
      (Some CHR ''@'', rest, [(2, v), (1, scheme @ ''://'' @ user)]) # tl"
    using match_dsn [OF assms(1-3)] by (rule exE)
  have "length rest < length ?t" by simp
  note replace_hit [OF hit this, of dsn_replacement]
  moreover have "dsn_replacement [(2, v), (1, scheme @ ''://'' @ user)] =
      scheme @ ''://'' @ user @ '':[redacted]@''"
    by (simp add: dsn_replacement_def group_def redacted_def)
  moreover have "replace_from dsn_pattern dsn_replacement (Some CHR ''@'') rest = rest"
  proof (rule replace_from_copy, rule ccontr)
    fix p u w assume "rest = u @ w" "matches dsn_pattern (p, w, []) \<noteq> []"
    with assms(6) dsn_needs [of "(p, w, [])"] show False by auto
  qed
  ultimately show ?thesis
    unfolding replace_all_def by (simp only: append_assoc)
qed



section \<open>What the patterns do not cover\<close>


end
