(* ===== verification/Go_Json.thy ===== *)
theory Go_Json
  imports Go_Strings
begin

text \<open>
  JSON text as Go's encoders write it: values, string escaping (\<open>encoding/json\<close> and the
  handler of \<open>log/slog\<close> differ in the short forms for backspace and form feed, and a caller
  may switch the escaping of HTML characters off), compact rendering.
\<close>

section \<open>Strings\<close>

text \<open>The escaping options: short forms for backspace and form feed, and HTML characters.\<close>

record escaping =
  esc_short :: bool
  esc_html :: bool

definition slog_escaping :: escaping where
  "slog_escaping = \<lparr>esc_short = False, esc_html = False\<rparr>"

definition marshal_escaping :: escaping where
  "marshal_escaping = \<lparr>esc_short = True, esc_html = True\<rparr>"

definition encoder_escaping :: escaping where
  "encoder_escaping = \<lparr>esc_short = True, esc_html = False\<rparr>"

definition json_ascii :: "escaping \<Rightarrow> char \<Rightarrow> go_string" where
  "json_ascii o1 c =
     (if c = CHR 0x22 \<or> c = CHR 0x5C then [CHR 0x5C, c]
      else if esc_html o1 \<and> c \<in> {CHR ''<'', CHR ''>'', CHR ''&''}
        then CHR 0x5C # ''u'' @ hex_fixed 4 (byte c)
      else if 32 \<le> byte c then [c]
      else if esc_short o1 \<and> byte c = 8 then CHR 0x5C # ''b''
      else if esc_short o1 \<and> byte c = 12 then CHR 0x5C # ''f''
      else if byte c = 10 then CHR 0x5C # ''n''
      else if byte c = 13 then CHR 0x5C # ''r''
      else if byte c = 9 then CHR 0x5C # ''t''
      else CHR 0x5C # ''u'' @ hex_fixed 4 (byte c))"

function json_body :: "escaping \<Rightarrow> go_string \<Rightarrow> go_string" where
  "json_body o1 [] = []"
| "json_body o1 (c # s) =
     (if is_ascii c then json_ascii o1 c @ json_body o1 s
      else (case decode_rune (c # s) of
        None \<Rightarrow> CHR 0x5C # ''ufffd'' @ json_body o1 s
      | Some (r, w) \<Rightarrow>
          (if r = 8232 \<or> r = 8233 then CHR 0x5C # ''u'' @ hex_fixed 4 r
           else take w (c # s))
          @ json_body o1 (drop (w - 1) s)))"
  by pat_completeness auto
termination
  by (relation "measure (\<lambda>(_, s). length s)") (auto dest: decode_rune_width)

definition json_string :: "escaping \<Rightarrow> go_string \<Rightarrow> go_string" where
  "json_string o1 s = CHR 0x22 # json_body o1 s @ [CHR 0x22]"

section \<open>Values\<close>

datatype json =
    JStr go_string
  | JInt int
  | JBool bool
  | JArr "json list"
  | JObj "(go_string \<times> json) list"

fun render :: "escaping \<Rightarrow> json \<Rightarrow> go_string" where
  "render o1 (JStr s) = json_string o1 s"
| "render o1 (JInt n) = itoa n"
| "render o1 (JBool b) = (if b then ''true'' else ''false'')"
| "render o1 (JArr vs) = ''['' @ join '','' (map (render o1) vs) @ '']''"
| "render o1 (JObj fs) =
     ''{'' @ join '','' (map (\<lambda>(k, v). json_string o1 k @ '':'' @ render o1 v) fs) @ ''}''"

section \<open>A rendered value stays on its line\<close>

lemma json_ascii_no_lf: "CHR 0x0A \<notin> set (json_ascii o1 c)"
proof (cases "c = CHR 0x0A")
  case True
  then show ?thesis by (simp add: json_ascii_def byte_def)
next
  case False
  with hex_fixed_no_lf [of 4 "byte c"] show ?thesis by (simp add: json_ascii_def)
qed

lemma json_body_no_lf: "CHR 0x0A \<notin> set (json_body o1 s)"
proof (induction o1 s rule: json_body.induct)
  case (2 o1 c s)
  have low: "\<not> 128 \<le> byte (CHR 0x0A)" by (simp add: byte_def)
  show ?case
  proof (cases "is_ascii c")
    case True
    with 2 json_ascii_no_lf show ?thesis by simp
  next
    case False
    show ?thesis
    proof (cases "decode_rune (c # s)")
      case None
      with 2 False show ?thesis by simp
    next
      case (Some rw)
      obtain r w where rw: "rw = (r, w)" by fastforce
      with Some False have "CHR 0x0A \<notin> set (json_body o1 (drop (w - 1) s))"
        using 2(3) by simp
      moreover have "CHR 0x0A \<notin> set (take w (c # s))"
        using decode_rune_high Some rw low by blast
      ultimately show ?thesis
        using Some rw False hex_fixed_no_lf by simp
    qed
  qed
qed simp

lemma json_string_no_lf: "CHR 0x0A \<notin> set (json_string o1 s)"
  using json_body_no_lf by (simp add: json_string_def)

lemma render_no_lf: "CHR 0x0A \<notin> set (render o1 v)"
proof (induction o1 v rule: render.induct)
  case (4 o1 vs)
  then have "\<forall>w \<in> set (map (render o1) vs). CHR 0x0A \<notin> set w" by simp
  then show ?case using join_no_lf [of "'',''"] by simp
next
  case (5 o1 fs)
  then have "\<forall>w \<in> set (map (\<lambda>(k, v). json_string o1 k @ '':'' @ render o1 v) fs). CHR 0x0A \<notin> set w"
    using json_string_no_lf by fastforce
  then show ?case using join_no_lf [of "'',''"] by simp
qed (simp_all add: json_string_no_lf itoa_no_lf)

end
