(* ===== verification/Go_Clock.thy ===== *)
theory Go_Clock
  imports Go_Time
begin

text \<open>
  Points in time as nanoseconds since 1970-01-01T00:00:00Z, and the one layout the program
  formats them in. The calendar is the proleptic Gregorian one that \<open>time.Time\<close> uses.
\<close>

type_synonym instant = int

text \<open>The zero \<open>time.Time\<close>, midnight of January 1 of year 1.\<close>

definition zero_time :: instant where
  "zero_time = -62135596800000000000"

text \<open>Year, month and day of a day count; the count starts the year in March.\<close>

definition civil_of_days :: "int \<Rightarrow> int \<times> int \<times> int" where
  "civil_of_days z =
     (let z' = z + 719468;
          era = z' div 146097;
          doe = z' mod 146097;
          yoe = (doe - doe div 1460 + doe div 36524 - doe div 146096) div 365;
          doy = doe - (365 * yoe + yoe div 4 - yoe div 100);
          mp = (5 * doy + 2) div 153;
          m = (if mp < 10 then mp + 3 else mp - 9);
          y = yoe + era * 400 + (if m \<le> 2 then 1 else 0)
      in (y, m, doy - (153 * mp + 2) div 5 + 1))"

definition pad :: "nat \<Rightarrow> int \<Rightarrow> go_string" where
  "pad w n = (let ds = nat_digits n in replicate (w - length ds) CHR ''0'' @ ds)"

text \<open>The layout \<open>2006-01-02T15:04:05.000Z\<close>, for years from 0.\<close>

definition format_millis :: "instant \<Rightarrow> go_string" where
  "format_millis t =
     (let secs = t div 1000000000;
          (y, m, d) = civil_of_days (secs div 86400);
          s = secs mod 86400
      in pad 4 y @ ''-'' @ pad 2 m @ ''-'' @ pad 2 d @ ''T'' @
         pad 2 (s div 3600) @ '':'' @ pad 2 (s div 60 mod 60) @ '':'' @ pad 2 (s mod 60) @ ''.'' @
         pad 3 (t div 1000000 mod 1000) @ ''Z'')"

text \<open>The layout \<open>time.RFC3339Nano\<close> in UTC: trailing zeros of the fraction are dropped.\<close>

definition format_nanos :: "instant \<Rightarrow> go_string" where
  "format_nanos t =
     (let secs = t div 1000000000;
          (y, m, d) = civil_of_days (secs div 86400);
          s = secs mod 86400;
          frac = rev (dropWhile ((=) CHR ''0'') (rev (pad 9 (t mod 1000000000))))
      in pad 4 y @ ''-'' @ pad 2 m @ ''-'' @ pad 2 d @ ''T'' @
         pad 2 (s div 3600) @ '':'' @ pad 2 (s div 60 mod 60) @ '':'' @ pad 2 (s mod 60) @
         (if frac = [] then [] else CHR ''.'' # frac) @ ''Z'')"

end
