(* ===== verification/Go_Slog.thy ===== *)
theory Go_Slog
  imports Go_Json Go_Clock
begin

text \<open>
  The part of \<open>log/slog\<close> the program builds on: attributes, records, the handler interface,
  the JSON handler, and the front end that filters by level and stamps records.
\<close>

section \<open>Levels, attributes, records\<close>

type_synonym level = int

definition level_debug :: level where "level_debug = -4"
definition level_info :: level where "level_info = 0"
definition level_warn :: level where "level_warn = 4"
definition level_error :: level where "level_error = 8"

definition level_string :: "level \<Rightarrow> go_string" where
  "level_string l =
     (let str = (\<lambda>base d. if d = 0 then base else base @ (if 0 < d then ''+'' else '''') @ itoa d)
      in if l < level_info then str ''DEBUG'' (l - level_debug)
         else if l < level_warn then str ''INFO'' (l - level_info)
         else if l < level_error then str ''WARN'' (l - level_warn)
         else str ''ERROR'' (l - level_error))"

text \<open>
  The kinds of value the program logs. A time that no replacement function rewrites is
  printed with nanoseconds.
\<close>

datatype log_value = VString go_string | VInt int | VTime instant | VLevel level | VStrings "go_string list"

type_synonym attr = "go_string \<times> log_value"

fun json_of_value :: "log_value \<Rightarrow> json" where
  "json_of_value (VString s) = JStr s"
| "json_of_value (VInt n) = JInt n"
| "json_of_value (VTime t) = JStr (format_nanos t)"
| "json_of_value (VLevel l) = JStr (level_string l)"
| "json_of_value (VStrings ss) = JArr (map JStr ss)"

record log_record =
  rec_time :: instant
  rec_level :: level
  rec_msg :: go_string
  rec_attrs :: "attr list"

definition add_attrs :: "log_record \<Rightarrow> attr list \<Rightarrow> log_record" where
  "add_attrs r as = r\<lparr>rec_attrs := rec_attrs r @ as\<rparr>"

section \<open>The JSON handler\<close>

text \<open>
  The attributes attached at the top, and the groups opened since, each with the attributes
  attached while it was the innermost one. The replacement function gets the open groups'
  names and is also applied to the time, the level and the message.
\<close>

record json_handler =
  jh_level :: level
  jh_replace :: "go_string list \<Rightarrow> attr \<Rightarrow> attr"
  jh_attrs :: "attr list"
  jh_groups :: "(go_string \<times> attr list) list"

definition new_json_handler :: "level \<Rightarrow> (go_string list \<Rightarrow> attr \<Rightarrow> attr) \<Rightarrow> json_handler" where
  "new_json_handler l repl = \<lparr>jh_level = l, jh_replace = repl, jh_attrs = [], jh_groups = []\<rparr>"

definition json_enabled :: "json_handler \<Rightarrow> level \<Rightarrow> bool" where
  "json_enabled h l \<longleftrightarrow> jh_level h \<le> l"

definition json_with_attrs :: "json_handler \<Rightarrow> attr list \<Rightarrow> json_handler" where
  "json_with_attrs h as =
     (let as' = map (jh_replace h (map fst (jh_groups h))) as in
      if jh_groups h = [] then h\<lparr>jh_attrs := jh_attrs h @ as'\<rparr>
      else h\<lparr>jh_groups := butlast (jh_groups h) @
               [(fst (last (jh_groups h)), snd (last (jh_groups h)) @ as')]\<rparr>)"

definition json_with_group :: "json_handler \<Rightarrow> go_string \<Rightarrow> json_handler" where
  "json_with_group h name =
     (if name = '''' then h else h\<lparr>jh_groups := jh_groups h @ [(name, [])]\<rparr>)"

text \<open>An open group without members is left out.\<close>

fun nest :: "(go_string \<times> (go_string \<times> json) list) list \<Rightarrow> (go_string \<times> json) list" where
  "nest [] = []"
| "nest ((name, fs) # gs) =
     (let inner = fs @ nest gs in if inner = [] then [] else [(name, JObj inner)])"

definition field_of :: "attr \<Rightarrow> go_string \<times> json" where
  "field_of a = (fst a, json_of_value (snd a))"

definition json_fields :: "json_handler \<Rightarrow> log_record \<Rightarrow> (go_string \<times> json) list" where
  "json_fields h r =
     (let builtin = map (\<lambda>a. field_of (jh_replace h [] a))
            [(''time'', VTime (rec_time r)), (''level'', VLevel (rec_level r)),
             (''msg'', VString (rec_msg r))];
          own = map (\<lambda>a. field_of (jh_replace h (map fst (jh_groups h)) a)) (rec_attrs r);
          pre = map field_of (jh_attrs h);
          groups = map (\<lambda>(n, as). (n, map field_of as)) (jh_groups h)
      in builtin @ pre @
         (if groups = [] then own
          else nest (butlast groups @ [(fst (last groups), snd (last groups) @ own)])))"

definition json_line :: "json_handler \<Rightarrow> log_record \<Rightarrow> go_string" where
  "json_line h r = render slog_escaping (JObj (json_fields h r)) @ [CHR 0x0A]"

section \<open>The handler interface\<close>

text \<open>
  What a handler's client sees: level filtering that attaching attributes does not change,
  and records that keep the attributes of the handler they went through.
  \<open>fields ctx h r\<close> are the top-level members of the object the handler writes.
\<close>

locale log_handler =
  fixes enabled :: "'h \<Rightarrow> level \<Rightarrow> bool"
    and fields :: "'c \<Rightarrow> 'h \<Rightarrow> log_record \<Rightarrow> (go_string \<times> json) list"
    and with_attrs :: "'h \<Rightarrow> attr list \<Rightarrow> 'h"
    and with_group :: "'h \<Rightarrow> go_string \<Rightarrow> 'h"
    and flat :: "'h \<Rightarrow> bool"
  assumes enabled_with_attrs: "enabled (with_attrs h as) l = enabled h l"
    and enabled_with_group: "enabled (with_group h g) l = enabled h l"
    and flat_with_attrs: "flat h \<Longrightarrow> flat (with_attrs h as)"
    and fields_with_attrs: "set (fields c h r) \<subseteq> set (fields c (with_attrs h as) r) \<or> \<not> flat h"
    and attached: "flat h \<Longrightarrow> (k, VString v) \<in> set as \<Longrightarrow>
      (k, JStr v) \<in> set (fields c (with_attrs h as) r)"
    and logged: "flat h \<Longrightarrow> (k, VString v) \<in> set (rec_attrs r) \<Longrightarrow> (k, JStr v) \<in> set (fields c h r)"
begin

definition log :: "'c \<Rightarrow> instant \<Rightarrow> 'h \<Rightarrow> level \<Rightarrow> go_string \<Rightarrow> attr list \<Rightarrow> (go_string \<times> json) list option" where
  "log c t h l msg as =
     (if enabled h l
      then Some (fields c h \<lparr>rec_time = t, rec_level = l, rec_msg = msg, rec_attrs = as\<rparr>)
      else None)"

lemma log_iff_enabled: "log c t (with_attrs h as) l msg bs \<noteq> None \<longleftrightarrow> enabled h l"
  by (simp add: log_def enabled_with_attrs)

lemma attached_survives:
  assumes "flat h" "(k, VString v) \<in> set as" "log c t (with_attrs (with_attrs h as) bs) l msg cs = Some fs"
  shows "(k, JStr v) \<in> set fs"
proof -
  let ?r = "\<lparr>rec_time = t, rec_level = l, rec_msg = msg, rec_attrs = cs\<rparr>"
  have "(k, JStr v) \<in> set (fields c (with_attrs h as) ?r)"
    by (rule attached [OF assms(1,2)])
  with fields_with_attrs [of c "with_attrs h as" ?r bs] flat_with_attrs [OF assms(1)] assms(3)
  show ?thesis by (auto simp: log_def split: if_splits)
qed

end

end
