(* ===== verification/Log_Trace.thy ===== *)
theory Log_Trace
  imports Go_Strings "HOL-Library.Word"
begin

unbundle bit_operations_syntax

text \<open>
  \<open>internal/logging/context.go\<close>: trace identifiers, their hexadecimal form
  (\<open>encoding/hex\<close>), and their way from a \<open>traceparent\<close> header into the context of a
  request.
\<close>

section \<open>Identifiers\<close>

definition trace_id_len :: nat where
  "trace_id_len = 16"

text \<open>An array of \<open>TraceIDLen\<close> bytes.\<close>

type_synonym trace_id = "8 word list"

definition valid_id :: "trace_id \<Rightarrow> bool" where
  "valid_id t \<longleftrightarrow> length t = trace_id_len"

definition zero_trace_id :: trace_id where
  "zero_trace_id = replicate trace_id_len 0"

definition is_zero :: "trace_id \<Rightarrow> bool" where
  "is_zero t \<longleftrightarrow> t = zero_trace_id"

section \<open>Hexadecimal\<close>

text \<open>\<open>hex.EncodeToString\<close>: two lower-case digits per byte, the high half first.\<close>

definition hex_encode :: "8 word list \<Rightarrow> go_string" where
  "hex_encode bs =
     concat (map (\<lambda>b. [hex_digit (uint (drop_bit 4 b)), hex_digit (uint (b AND 15))]) bs)"

text \<open>The library's reverse table, 255 for what is no digit.\<close>

definition reverse_hex :: "char \<Rightarrow> 8 word" where
  "reverse_hex c =
     (if is_digit c then word_of_int (byte c - 48)
      else if 97 \<le> byte c \<and> byte c \<le> 102 then word_of_int (byte c - 87)
      else if 65 \<le> byte c \<and> byte c \<le> 70 then word_of_int (byte c - 55)
      else 255)"

fun hex_decode :: "go_string \<Rightarrow> 8 word list option" where
  "hex_decode [] = Some []"
| "hex_decode [_] = None"
| "hex_decode (p # q # s) =
     (let a = reverse_hex p; b = reverse_hex q in
      if 15 < a then None
      else if 15 < b then None
      else map_option ((#) (push_bit 4 a OR b)) (hex_decode s))"

definition trace_id_string :: "trace_id \<Rightarrow> go_string" where
  "trace_id_string t = hex_encode t"

text \<open>\<open>ParseTraceID\<close>, with \<open>None\<close> for the false result.\<close>

definition parse_trace_id :: "go_string \<Rightarrow> trace_id option" where
  "parse_trace_id s =
     (if length s \<noteq> trace_id_len * 2 then None
      else (case hex_decode s of
              None \<Rightarrow> None
            | Some t \<Rightarrow> if is_zero t then None else Some t))"

section \<open>Requests\<close>

text \<open>
  The value under the package's private context key, which only this package sets.
\<close>

record log_context =
  ctx_trace_id :: "trace_id option"

definition background :: log_context where
  "background = \<lparr>ctx_trace_id = None\<rparr>"

definition context_with_trace_id :: "log_context \<Rightarrow> trace_id \<Rightarrow> log_context" where
  "context_with_trace_id ctx t = ctx\<lparr>ctx_trace_id := Some t\<rparr>"

definition trace_id_from_context :: "log_context \<Rightarrow> trace_id" where
  "trace_id_from_context ctx =
     (case ctx_trace_id ctx of Some t \<Rightarrow> t | None \<Rightarrow> zero_trace_id)"

definition traceparent_header :: go_string where
  "traceparent_header = ''traceparent''"

definition trace_id_from_traceparent :: "go_string \<Rightarrow> trace_id option" where
  "trace_id_from_traceparent header =
     (let parts = split_on CHR ''-'' (trim_space header) in
      if length parts < 4 then None
      else if length (parts ! 0) \<noteq> 2 then None
      else parse_trace_id (parts ! 1))"

text \<open>\<open>NewTraceID\<close>; \<open>rand n\<close> is what \<open>crypto/rand\<close> fills a buffer of \<open>n\<close> bytes with in this call.\<close>

definition new_trace_id :: "(nat \<Rightarrow> 8 word list) \<Rightarrow> trace_id" where
  "new_trace_id rand = rand trace_id_len"

definition trace_id_for_request :: "(nat \<Rightarrow> 8 word list) \<Rightarrow> go_string \<Rightarrow> trace_id" where
  "trace_id_for_request rand header =
     (case trace_id_from_traceparent header of Some t \<Rightarrow> t | None \<Rightarrow> new_trace_id rand)"

section \<open>Facts about the hexadecimal form\<close>

definition is_hex :: "char \<Rightarrow> bool" where
  "is_hex c \<longleftrightarrow> is_digit c \<or> (97 \<le> byte c \<and> byte c \<le> 102) \<or> (65 \<le> byte c \<and> byte c \<le> 70)"

definition is_lower_hex :: "char \<Rightarrow> bool" where
  "is_lower_hex c \<longleftrightarrow> is_digit c \<or> (97 \<le> byte c \<and> byte c \<le> 102)"

lemma byte_hex_digit:
  "0 \<le> n \<Longrightarrow> n < 16 \<Longrightarrow> byte (hex_digit n) = (if n < 10 then 48 + n else 87 + n)"
  by (simp add: hex_digit_def byte_def)

lemma hex_digit_lower: "0 \<le> n \<Longrightarrow> n < 16 \<Longrightarrow> is_lower_hex (hex_digit n)"
  by (simp add: is_lower_hex_def is_digit_def byte_hex_digit)

lemma low_nibble: "(b :: 8 word) AND 15 = take_bit 4 b"
  by (simp add: take_bit_eq_mask mask_numeral)

lemma nibble_bounds:
  fixes b :: "8 word"
  shows "uint (drop_bit 4 b) < 16" "uint (b AND 15) < 16"
proof -
  have "uint b < 256" using uint_lt2p [of b] by simp
  then show "uint (drop_bit 4 b) < 16" by (simp add: drop_bit_eq_div uint_div)
  show "uint (b AND 15) < 16"
    unfolding low_nibble by (simp add: take_bit_eq_mod uint_mod)
qed

lemma reverse_hex_digit:
  assumes "0 \<le> n" "n < 16"
  shows "reverse_hex (hex_digit n) = word_of_int n"
  using assms by (simp add: reverse_hex_def is_digit_def byte_hex_digit)

lemma nibbles_join:
  fixes b :: "8 word"
  shows "push_bit 4 (drop_bit 4 b) OR (b AND 15) = b"
  unfolding low_nibble by (rule bit_word_eqI) (auto simp: bit_simps)

lemma small_word_bit: "a \<le> 15 \<Longrightarrow> 4 \<le> n \<Longrightarrow> \<not> bit (a :: 8 word) n"
proof -
  assume a: "a \<le> 15" and n: "4 \<le> n"
  then have "take_bit 4 a = a"
    by (simp add: word_uint_eq_iff take_bit_eq_mod uint_mod word_le_def)
  then show ?thesis using n by (metis bit_take_bit_iff leD)
qed

lemma nibbles_split:
  fixes a b :: "8 word"
  assumes "a \<le> 15" "b \<le> 15"
  shows "drop_bit 4 (push_bit 4 a OR b) = a" "(push_bit 4 a OR b) AND 15 = b"
proof -
  show "drop_bit 4 (push_bit 4 a OR b) = a"
    by (rule bit_word_eqI) (use small_word_bit [OF assms(1)] small_word_bit [OF assms(2)] not_le
      in \<open>auto simp: bit_simps\<close>)
  show "(push_bit 4 a OR b) AND 15 = b"
    unfolding low_nibble by (rule bit_word_eqI) (use small_word_bit assms in \<open>auto simp: bit_simps\<close>)
qed

lemma length_hex_encode [simp]: "length (hex_encode bs) = 2 * length bs"
  by (induction bs) (auto simp: hex_encode_def)

lemma hex_encode_simps [simp]:
  "hex_encode [] = []"
  "hex_encode (b # bs) =
     hex_digit (uint (drop_bit 4 b)) # hex_digit (uint (b AND 15)) # hex_encode bs"
  by (simp_all add: hex_encode_def)

lemma hex_encode_lower: "list_all is_lower_hex (hex_encode bs)"
  by (induction bs) (simp_all add: hex_digit_lower nibble_bounds)

section \<open>Round trips\<close>

lemma reverse_hex_bound: "reverse_hex c \<le> 15 \<longleftrightarrow> is_hex c"
proof (cases "is_hex c")
  case True
  have small: "0 \<le> n \<Longrightarrow> n \<le> 15 \<Longrightarrow> (word_of_int n :: 8 word) \<le> 15" for n
    by (simp add: word_le_def uint_word_of_int)
  from True small show ?thesis
    by (auto simp: is_hex_def reverse_hex_def is_digit_def simp del: of_int_diff)
next
  case False
  then show ?thesis by (auto simp: is_hex_def reverse_hex_def)
qed

lemma hex_decode_encode: "hex_decode (hex_encode bs) = Some bs"
proof (induction bs)
  case (Cons b bs)
  have n: "uint (drop_bit 4 b) \<le> 15" "uint (b AND 15) \<le> 15"
    using nibble_bounds [of b] by simp_all
  then have "reverse_hex (hex_digit (uint (drop_bit 4 b))) = drop_bit 4 b"
    "reverse_hex (hex_digit (uint (b AND 15))) = b AND 15"
    using reverse_hex_digit nibble_bounds [of b] by simp_all
  moreover have "\<not> 15 < drop_bit 4 b" "\<not> 15 < b AND 15"
    using n by (simp_all add: word_less_def)
  ultimately show ?case
    using Cons nibbles_join by (simp del: word_not_simps)
qed simp

text \<open>
  What decodes, encodes back to the same text in lower case.
\<close>

definition lower_hex :: "char \<Rightarrow> char" where
  "lower_hex c = (if 65 \<le> byte c \<and> byte c \<le> 70 then char_of (byte c + 32) else c)"

lemma byte_eqI: "byte c = byte d \<Longrightarrow> c = d"
  by (simp add: byte_def)

lemma hex_digit_reverse: "is_hex c \<Longrightarrow> hex_digit (uint (reverse_hex c)) = lower_hex c"
proof (rule byte_eqI)
  assume h: "is_hex c"
  have u: "0 \<le> n \<Longrightarrow> n \<le> 15 \<Longrightarrow> uint (word_of_int n :: 8 word) = n" for n
    by (simp add: uint_word_of_int)
  have b: "0 \<le> n \<Longrightarrow> n < 256 \<Longrightarrow> byte (char_of n) = n" for n
    by (simp add: byte_def)
  from h show "byte (hex_digit (uint (reverse_hex c))) = byte (lower_hex c)"
    by (auto simp: is_hex_def reverse_hex_def is_digit_def u byte_hex_digit lower_hex_def b
        simp del: of_int_diff)
qed

lemma hex_decode_iff:
  "hex_decode s \<noteq> None \<longleftrightarrow> even (length s) \<and> list_all is_hex s"
proof (induction s rule: hex_decode.induct)
  case (3 p q s)
  have "15 < reverse_hex c \<longleftrightarrow> \<not> is_hex c" for c
    using reverse_hex_bound [of c] by (simp add: not_le [symmetric])
  with 3 show ?case by (auto simp: Let_def)
qed auto

lemma hex_encode_decode: "hex_decode s = Some bs \<Longrightarrow> hex_encode bs = map lower_hex s"
proof (induction s arbitrary: bs rule: hex_decode.induct)
  case (3 p q s)
  then obtain bs' where h: "is_hex p" "is_hex q" and d: "hex_decode s = Some bs'"
    and bs: "bs = (push_bit 4 (reverse_hex p) OR reverse_hex q) # bs'"
    using reverse_hex_bound [of p] reverse_hex_bound [of q]
    by (auto simp: Let_def not_le [symmetric] split: if_splits)
  from h have "reverse_hex p \<le> 15" "reverse_hex q \<le> 15" by (simp_all add: reverse_hex_bound)
  from nibbles_split [OF this] 3(1) d h show ?case
    by (simp add: bs hex_digit_reverse Let_def reverse_hex_bound not_less)
qed auto

lemma hex_decode_length: "hex_decode s = Some bs \<Longrightarrow> length s = 2 * length bs"
  by (induction s arbitrary: bs rule: hex_decode.induct) (auto simp: Let_def split: if_splits)

lemma parse_trace_id_SomeD:
  "parse_trace_id s = Some t \<Longrightarrow> hex_decode s = Some t \<and> valid_id t \<and> \<not> is_zero t"
  using hex_decode_length [of s t]
  by (auto simp: parse_trace_id_def valid_id_def trace_id_len_def split: if_splits option.splits)

text \<open>
  C36: A trace identifier that is not all zeros survives being written and read back, and
  the all-zero one is never read.
\<close>

theorem trace_id_round_trip:
  assumes "valid_id t"
  shows "parse_trace_id (trace_id_string t) = (if is_zero t then None else Some t)"
  using assms hex_decode_encode [of t]
  by (simp add: parse_trace_id_def trace_id_string_def valid_id_def)

theorem trace_id_round_trip_witness:
  "parse_trace_id (trace_id_string (replicate 15 0 @ [171])) = Some (replicate 15 0 @ [171])"
proof -
  have "valid_id (replicate 15 0 @ [171])" "\<not> is_zero (replicate 15 0 @ [171])" by code_simp+
  then show ?thesis using trace_id_round_trip [of "replicate 15 0 @ [171]"] by simp
qed

text \<open>
  C37: Exactly the texts of 32 hexadecimal digits that are not all zero are accepted as a
  trace identifier, and writing the identifier gives the text in lower case.
\<close>

theorem parse_trace_id_accepts_iff:
  "map_option trace_id_string (parse_trace_id s) =
     (if length s = 32 \<and> list_all is_hex s \<and> map lower_hex s \<noteq> replicate 32 CHR ''0''
      then Some (map lower_hex s) else None)"
proof (cases "parse_trace_id s")
  case (Some t)
  have "t = zero_trace_id" if "hex_encode t = replicate 32 CHR ''0''"
  proof -
    have "hex_encode zero_trace_id = replicate 32 CHR ''0''" by code_simp
    with that show ?thesis by (metis hex_decode_encode option.inject)
  qed
  with Some parse_trace_id_SomeD [OF Some] hex_decode_iff [of s] hex_encode_decode [of s t]
  show ?thesis
    by (auto simp: parse_trace_id_def trace_id_string_def trace_id_len_def is_zero_def split: if_splits)
next
  case None
  have zero: "hex_encode zero_trace_id = replicate 32 CHR ''0''"
    by code_simp
  from None hex_decode_iff [of s] hex_encode_decode [of s] zero show ?thesis
    by (auto simp: parse_trace_id_def trace_id_len_def is_zero_def split: if_splits option.splits)
qed

section \<open>Adoption\<close>

lemma hex_no_dash: "list_all is_hex s \<Longrightarrow> CHR ''-'' \<notin> set s"
  by (auto simp: list_all_iff is_hex_def is_digit_def byte_def)

text \<open>
  A well-formed \<open>traceparent\<close> header is adopted: whatever its two-character version,
  its span and what follows, and whatever white space surrounds it, the request gets the
  identifier of its second field.
\<close>

lemma traceparent_second_field:
  assumes "trim_space header = v @ ''-'' @ s @ ''-'' @ span @ ''-'' @ flags"
    and "length v = 2" and "CHR ''-'' \<notin> set v" and "CHR ''-'' \<notin> set span"
    and "parse_trace_id s = Some t"
  shows "trace_id_for_request rand header = t"
proof -
  have "list_all is_hex s"
    using parse_trace_id_SomeD [OF assms(5)] hex_decode_iff [of s] by simp
  from hex_no_dash [OF this] assms(1,3,4)
  have "split_on CHR ''-'' (trim_space header) = v # s # span # split_on CHR ''-'' flags"
    by (simp add: split_on_append)
  moreover obtain w ws where "split_on CHR ''-'' flags = w # ws"
    by (metis list.exhaust split_on_not_Nil)
  ultimately show ?thesis
    using assms(2,5)
    by (simp add: trace_id_for_request_def trace_id_from_traceparent_def)
qed

text \<open>
  Every request gets an identifier that is written as 32 lower-case hexadecimal
  digits and is not the all-zero one, whatever its header says, when the random source does
  not draw sixteen zero bytes.
\<close>

theorem request_trace_id_usable:
  assumes "length (rand 16) = 16" and "rand 16 \<noteq> replicate 16 0"
  shows "length (trace_id_string (trace_id_for_request rand header)) = 32 \<and>
    list_all is_lower_hex (trace_id_string (trace_id_for_request rand header)) \<and>
    \<not> is_zero (trace_id_for_request rand header)"
proof (cases "trace_id_from_traceparent header")
  case None
  with assms hex_encode_lower show ?thesis
    by (simp add: trace_id_for_request_def trace_id_string_def new_trace_id_def trace_id_len_def
        is_zero_def zero_trace_id_def)
next
  case (Some t)
  then obtain s where "parse_trace_id s = Some t"
    by (auto simp: trace_id_from_traceparent_def Let_def split: if_splits)
  from parse_trace_id_SomeD [OF this] Some hex_encode_lower show ?thesis
    by (simp add: trace_id_for_request_def trace_id_string_def valid_id_def trace_id_len_def)
qed

theorem request_trace_id_usable_witness:
  "\<not> is_zero (trace_id_for_request (\<lambda>n. replicate n 7)
     ''00-00000000000000000000000000000000-00f067aa0ba902b7-01'')"
proof -
  have "length (replicate 16 (7 :: 8 word)) = 16" "replicate 16 (7 :: 8 word) \<noteq> replicate 16 0"
    by code_simp+
  from request_trace_id_usable [of "\<lambda>n. replicate n 7", OF this] show ?thesis by blast
qed

end
