(* ===== verification/Log_Handler.thy ===== *)
theory Log_Handler
  imports Go_Slog Log_Trace Log_Sanitize
begin

text \<open>
  \<open>internal/logging/logger.go\<close>, \<open>handler.go\<close>, \<open>redis.go\<close>: level names, the logger that
  writes the fields of the log contract, the handler that adds the correlation identifier,
  and the adapter for the Redis client's own messages.
\<close>

section \<open>Options and levels\<close>

record log_options =
  opt_service :: go_string
  opt_version :: go_string
  opt_level :: go_string

text \<open>\<open>ParseLevel\<close>: the level and whether the name is known.\<close>

definition parse_level :: "go_string \<Rightarrow> level \<times> bool" where
  "parse_level name =
     (let n = to_lower (trim_space name) in
      if n = ''debug'' then (level_debug, True)
      else if n = ''info'' then (level_info, True)
      else if n = ''warn'' \<or> n = ''warning'' then (level_warn, True)
      else if n = ''error'' then (level_error, True)
      else (level_info, False))"

definition replace_attr :: "go_string list \<Rightarrow> attr \<Rightarrow> attr" where
  "replace_attr groups a =
     (if groups = [] \<and> fst a = ''time''
      then (case snd a of VTime t \<Rightarrow> (fst a, VString (format_millis t)) | _ \<Rightarrow> a)
      else a)"

section \<open>The context handler\<close>

definition trace_id_field :: go_string where
  "trace_id_field = ''trace_id''"

record context_handler =
  ch_inner :: json_handler

definition new_context_handler :: "json_handler \<Rightarrow> context_handler" where
  "new_context_handler inner = \<lparr>ch_inner = inner\<rparr>"

definition ch_enabled :: "context_handler \<Rightarrow> level \<Rightarrow> bool" where
  "ch_enabled h l = json_enabled (ch_inner h) l"

definition ch_record :: "log_context \<Rightarrow> log_record \<Rightarrow> log_record" where
  "ch_record ctx r =
     add_attrs r [(trace_id_field, VString (trace_id_string (trace_id_from_context ctx)))]"

text \<open>\<open>Handle\<close> passes the amended record on; these are the members and the line written.\<close>

definition ch_fields :: "log_context \<Rightarrow> context_handler \<Rightarrow> log_record \<Rightarrow> (go_string \<times> json) list" where
  "ch_fields ctx h r = json_fields (ch_inner h) (ch_record ctx r)"

definition ch_handle :: "log_context \<Rightarrow> context_handler \<Rightarrow> log_record \<Rightarrow> go_string" where
  "ch_handle ctx h r = json_line (ch_inner h) (ch_record ctx r)"

definition ch_with_attrs :: "context_handler \<Rightarrow> attr list \<Rightarrow> context_handler" where
  "ch_with_attrs h as = \<lparr>ch_inner = json_with_attrs (ch_inner h) as\<rparr>"

definition ch_with_group :: "context_handler \<Rightarrow> go_string \<Rightarrow> context_handler" where
  "ch_with_group h name = \<lparr>ch_inner = json_with_group (ch_inner h) name\<rparr>"

section \<open>The logger\<close>

definition new_logger :: "log_options \<Rightarrow> context_handler" where
  "new_logger opts =
     (let (level, _) = parse_level (opt_level opts);
          base = new_json_handler level replace_attr
      in ch_with_attrs (new_context_handler base)
           [(''service'', VString (opt_service opts)), (''version'', VString (opt_version opts))])"

text \<open>A call of the logger at time \<open>t\<close>: the line written, if the level lets it through.\<close>

definition log_at ::
  "context_handler \<Rightarrow> log_context \<Rightarrow> instant \<Rightarrow> level \<Rightarrow> go_string \<Rightarrow> attr list \<Rightarrow> go_string option" where
  "log_at h ctx t l msg as =
     (if ch_enabled h l
      then Some (ch_handle ctx h \<lparr>rec_time = t, rec_level = l, rec_msg = msg, rec_attrs = as\<rparr>)
      else None)"

text \<open>\<open>logging.Error\<close>.\<close>

definition error_attr :: "go_error option \<Rightarrow> attr" where
  "error_attr e = (''error'', VString (sanitize_error e))"

text \<open>
  \<open>redisAdapter.Printf\<close>; \<open>sprintf\<close> is \<open>fmt.Sprintf\<close> on the client's format and values.
\<close>

definition redis_event :: "('v list \<Rightarrow> go_string \<Rightarrow> go_string) \<Rightarrow> go_string \<Rightarrow> 'v list \<Rightarrow> level \<times> go_string \<times> attr list"
  where
  "redis_event sprintf format v =
     (level_warn, ''redis_client'',
      [(''error_class'', VString ''protocol_error''), (''detail'', VString (sprintf v format))])"

definition redis_printf ::
  "('v list \<Rightarrow> go_string \<Rightarrow> go_string) \<Rightarrow> context_handler \<Rightarrow> log_context \<Rightarrow> instant \<Rightarrow> go_string \<Rightarrow> 'v list
    \<Rightarrow> go_string option" where
  "redis_printf sprintf h ctx t format v =
     (case redis_event sprintf format v of (l, msg, as) \<Rightarrow> log_at h ctx t l msg as)"

section \<open>Both handlers meet the handler interface\<close>

definition json_flat :: "json_handler \<Rightarrow> bool" where
  "json_flat h \<longleftrightarrow> jh_groups h = [] \<and> jh_replace h = replace_attr"

lemma replace_attr_string [simp]: "replace_attr gs (k, VString v) = (k, VString v)"
  by (simp add: replace_attr_def)

lemma json_flat_fields:
  assumes "json_flat h"
  shows "json_fields h r =
    [(''time'', JStr (format_millis (rec_time r))), (''level'', JStr (level_string (rec_level r))),
     (''msg'', JStr (rec_msg r))] @ map field_of (jh_attrs h) @
     map (\<lambda>a. field_of (replace_attr [] a)) (rec_attrs r)"
  using assms by (simp add: json_fields_def json_flat_def field_of_def replace_attr_def)

lemma json_flat_with_attrs:
  assumes "json_flat h"
  shows "json_flat (json_with_attrs h as)"
    "jh_attrs (json_with_attrs h as) = jh_attrs h @ map (replace_attr []) as"
  using assms by (simp_all add: json_flat_def json_with_attrs_def)

lemma string_field_in:
  "(k, VString v) \<in> set as \<Longrightarrow> (k, JStr v) \<in> field_of ` replace_attr [] ` set as"
proof -
  assume "(k, VString v) \<in> set as"
  then have "field_of (replace_attr [] (k, VString v)) \<in> field_of ` replace_attr [] ` set as"
    by blast
  then show ?thesis by (simp add: field_of_def)
qed

interpretation json_handler: log_handler json_enabled "\<lambda>(_ :: log_context). json_fields"
  json_with_attrs json_with_group json_flat
proof unfold_locales
  fix h as l g
  show "json_enabled (json_with_attrs h as) l = json_enabled h l"
    by (simp add: json_enabled_def json_with_attrs_def Let_def)
  show "json_enabled (json_with_group h g) l = json_enabled h l"
    by (simp add: json_enabled_def json_with_group_def)
qed (auto simp: json_flat_with_attrs json_flat_fields string_field_in image_image [symmetric])

interpretation context_handler: log_handler ch_enabled ch_fields ch_with_attrs ch_with_group
  "\<lambda>h. json_flat (ch_inner h)"
proof unfold_locales
  fix h as l g
  show "ch_enabled (ch_with_attrs h as) l = ch_enabled h l"
    by (simp add: ch_enabled_def ch_with_attrs_def json_handler.enabled_with_attrs)
  show "ch_enabled (ch_with_group h g) l = ch_enabled h l"
    by (simp add: ch_enabled_def ch_with_group_def json_handler.enabled_with_group)
qed (auto simp: ch_fields_def ch_with_attrs_def ch_record_def add_attrs_def json_flat_with_attrs
    json_flat_fields string_field_in image_image [symmetric])

end
