(* ===== verification/Health_Checker.thy ===== *)
theory Health_Checker
  imports Go_Errors Go_Clock Log_Trace
begin

text \<open>
  \<open>internal/health/checker.go\<close>: the vocabulary of failure reasons, the status of one
  dependency, running one bounded check, and classifying its error.
\<close>

section \<open>Names and reasons\<close>

definition dependency_kafka :: go_string where "dependency_kafka = ''kafka''"
definition dependency_clickhouse :: go_string where "dependency_clickhouse = ''clickhouse''"
definition dependency_redis :: go_string where "dependency_redis = ''redis''"

datatype reason = Timeout | ConnectionRefused | AuthFailed | ProtocolError | Unknown

fun reason_string :: "reason \<Rightarrow> go_string" where
  "reason_string Timeout = ''timeout''"
| "reason_string ConnectionRefused = ''connection_refused''"
| "reason_string AuthFailed = ''auth_failed''"
| "reason_string ProtocolError = ''protocol_error''"
| "reason_string Unknown = ''unknown''"

text \<open>The vocabulary is finite and its words differ, so a reason may be a label.\<close>

instantiation reason :: enum
begin

definition enum_reason :: "reason list" where
  "enum_reason = [Timeout, ConnectionRefused, AuthFailed, ProtocolError, Unknown]"

definition enum_all_reason :: "(reason \<Rightarrow> bool) \<Rightarrow> bool" where
  "enum_all_reason P = list_all P [Timeout, ConnectionRefused, AuthFailed, ProtocolError, Unknown]"

definition enum_ex_reason :: "(reason \<Rightarrow> bool) \<Rightarrow> bool" where
  "enum_ex_reason P = list_ex P [Timeout, ConnectionRefused, AuthFailed, ProtocolError, Unknown]"

instance
  by standard
    (auto simp: enum_reason_def enum_all_reason_def enum_ex_reason_def, (metis reason.exhaust)+)

end

lemma reason_words: "inj reason_string" "card (range reason_string) = 5"
proof -
  show inj: "inj reason_string" unfolding inj_def by code_simp
  have "card (UNIV :: reason set) = 5" unfolding UNIV_enum enum_reason_def by simp
  with card_image [OF inj] show "card (range reason_string) = 5" by simp
qed

text \<open>The empty reason of a healthy dependency is \<open>None\<close>.\<close>

record status =
  st_name :: go_string
  st_healthy :: bool
  st_duration_ms :: int
  st_reason :: "reason option"
  st_checked_at :: instant
  st_err :: "go_error option"

section \<open>Classification\<close>

definition auth_markers :: "go_string list" where
  "auth_markers =
     [''authentication'', ''authentication failed'', ''access denied'', ''password'',
      ''unauthorized'', ''noauth'', ''wrongpass'', ''sasl'']"

definition looks_like_auth_failure :: "go_string \<Rightarrow> bool" where
  "looks_like_auth_failure msg =
     (let m = to_lower msg in list_ex (\<lambda>marker. str_contains m marker) auth_markers)"

fun classify :: "go_error option \<Rightarrow> reason option" where
  "classify None = None"
| "classify (Some err) = Some
     (if errors_is err CtxDeadlineExceeded \<or> errors_is err IoDeadlineExceeded then Timeout
      else if (case errors_as is_net_error err of Some n \<Rightarrow> timeout_flag n | None \<Rightarrow> False)
      then Timeout
      else if errors_is err (Errno ECONNREFUSED) then ConnectionRefused
      else if looks_like_auth_failure (error_text err) then AuthFailed
      else if errors_as is_op_error err \<noteq> None then Unknown
      else ProtocolError)"

section \<open>Bounded checks\<close>

text \<open>
  A request's context: what it carries for the logs, when its deadline is, and when its
  parent cancels it (never, for most).
\<close>

record req_context =
  cx_log :: log_context
  cx_deadline :: "instant option"
  cx_canceled :: "instant option"

definition with_timeout :: "req_context \<Rightarrow> instant \<Rightarrow> duration \<Rightarrow> req_context" where
  "with_timeout ctx now d =
     ctx\<lparr>cx_deadline := Some (case cx_deadline ctx of
        None \<Rightarrow> now + d | Some e \<Rightarrow> min e (now + d))\<rparr>"

text \<open>\<open>ctx.Err()\<close> at an instant: whichever of cancellation and deadline came first.\<close>

definition context_err :: "req_context \<Rightarrow> instant \<Rightarrow> go_error option" where
  "context_err ctx t =
     (case (cx_canceled ctx, cx_deadline ctx) of
        (None, None) \<Rightarrow> None
      | (Some c, None) \<Rightarrow> if c \<le> t then Some CtxCanceled else None
      | (None, Some d) \<Rightarrow> if d \<le> t then Some CtxDeadlineExceeded else None
      | (Some c, Some d) \<Rightarrow>
          if c \<le> t \<and> c < d then Some CtxCanceled
          else if d \<le> t then Some CtxDeadlineExceeded else None)"

text \<open>
  A checker: its name, and what its \<open>Check\<close> answers when called with a context at an
  instant, with the time it takes.
\<close>

record checker =
  ck_name :: go_string
  ck_check :: "req_context \<Rightarrow> instant \<Rightarrow> go_error option \<times> duration"

text \<open>\<open>run\<close>: time passes in the check only.\<close>

definition run :: "req_context \<Rightarrow> checker \<Rightarrow> duration \<Rightarrow> instant \<Rightarrow> status" where
  "run ctx c timeout now =
     (let ctx' = with_timeout ctx now timeout;
          (err, elapsed) = ck_check c ctx' now
      in \<lparr>st_name = ck_name c, st_healthy = (err = None),
          st_duration_ms = milliseconds elapsed,
          st_reason = (if err = None then None else classify err),
          st_checked_at = now + elapsed,
          st_err = err\<rparr>)"

text \<open>When the check that \<open>run\<close> starts at \<open>now\<close> is over.\<close>

definition run_end :: "req_context \<Rightarrow> checker \<Rightarrow> duration \<Rightarrow> instant \<Rightarrow> instant" where
  "run_end ctx c timeout now = now + snd (ck_check c (with_timeout ctx now timeout) now)"

section \<open>Facts about classification\<close>

lemma sublist_append_prefix:
  assumes "sublist m (p @ s)" "\<not> sublist m p" "p \<noteq> []" "last p \<notin> set m"
  shows "sublist m s"
  using assms
proof -
  obtain l where p: "p = butlast p @ [l]" "l = last p" using assms(3) by simp
  from assms(1) obtain a b where ab: "p @ s = a @ m @ b" by (auto simp: sublist_def)
  consider z where "a = p @ z" | z where "p = a @ z" "z \<noteq> []"
    using append_eq_append_conv2 [THEN iffD1, OF ab]
    by (metis append.right_neutral)
  then show ?thesis
  proof cases
    case 1
    with ab have "s = z @ m @ b" by simp
    then show ?thesis by (auto simp: sublist_def)
  next
    case 2
    with ab have "z @ s = m @ b" by simp
    from append_eq_append_conv2 [THEN iffD1, OF this] consider
      y where "z = m @ y" | y where "m = z @ y" by auto
    then show ?thesis
    proof cases
      case 1
      with 2 have "sublist m p" by (auto simp: sublist_def)
      with assms(2) show ?thesis by simp
    next
      case 2
      with \<open>p = a @ z\<close> \<open>z \<noteq> []\<close> have "last p \<in> set m" by simp
      with assms(4) show ?thesis by simp
    qed
  qed
qed

lemma marker_append:
  assumes "m \<in> set auth_markers" "\<not> sublist m p" "p = q @ '': ''"
  shows "sublist m (p @ s) = sublist m s"
proof
  have colon: "CHR '':'' \<notin> set m" using assms(1) unfolding auth_markers_def by auto
  have head: "m \<noteq> [] \<and> hd m \<noteq> CHR '' ''" using assms(1) unfolding auth_markers_def by auto
  assume "sublist m (p @ s)"
  then have "sublist m ((q @ '':'') @ CHR '' '' # s)" using assms(3) by simp
  moreover have "\<not> sublist m (q @ '':'')"
  proof
    assume "sublist m (q @ '':'')"
    then obtain a b where "q @ '':'' = a @ m @ b" by (auto simp: sublist_def)
    then have "p = a @ m @ (b @ '' '')"
      unfolding assms(3) by (metis append.assoc append_Cons append_Nil)
    with assms(2) show False by (auto simp: sublist_def)
  qed
  ultimately have "sublist m (CHR '' '' # s)"
    by (rule sublist_append_prefix) (use colon in auto)
  with head show "sublist m s"
    by (cases m) (auto simp: sublist_Cons_right)
next
  assume "sublist m s"
  then show "sublist m (p @ s)" by (auto simp: sublist_def) (metis append.assoc)
qed

lemma auth_prefix:
  assumes "\<forall>c \<in> set q. is_ascii c" "\<not> looks_like_auth_failure (q @ '': '')"
  shows "looks_like_auth_failure ((q @ '': '') @ s) = looks_like_auth_failure s"
proof -
  have low: "to_lower ((q @ '': '') @ s) = (map lower_byte q @ '': '') @ to_lower s" for s
    using to_lower_ascii_append [of "q @ '': ''" s] assms(1)
    by (simp add: is_ascii_def byte_def lower_byte_def)
  have "to_lower (q @ '': '') = map lower_byte q @ '': ''" using low [of "[]"] by simp
  then have "\<not> sublist m (map lower_byte q @ '': '')" if "m \<in> set auth_markers" for m
    using assms(2) that by (auto simp: looks_like_auth_failure_def Let_def list_ex_iff str_contains_def)
  then show ?thesis
    unfolding looks_like_auth_failure_def Let_def list_ex_iff str_contains_def low
    using marker_append [OF _ _ refl] by blast
qed

lemma errors_as_Wrap: "\<not> P (WrapError p e) \<Longrightarrow> errors_as P (WrapError p e) = errors_as P e"
  by (simp add: chain_Wrap)

lemma classify_wrap:
  assumes "\<forall>c \<in> set q. is_ascii c" and "\<not> looks_like_auth_failure (q @ '': '')"
  shows "classify (Some (WrapError (q @ '': '') e)) = classify (Some e)"
  using auth_prefix [OF assms, of "error_text e"]
  by (simp add: chain_Wrap(1) errors_as_Wrap del: append_assoc)

lemma classify_canceled: "classify (Some CtxCanceled) = Some ProtocolError"
  by code_simp

end
