(* ===== verification/Health_Properties.thy ===== *)
theory Health_Properties
  imports Health_Checker
begin

text \<open>
  The properties of the classification of errors.
\<close>

section \<open>Classification\<close>

text \<open>
  C32: The text a checker puts in front of its client's error does not change how the
  error is classified: wrapping is transparent for every prefix that ends with a colon and a
  space and itself says nothing about credentials.
\<close>

theorem classify_wrapped:
  assumes "\<forall>c \<in> set q. is_ascii c" and "\<not> looks_like_auth_failure (q @ '': '')"
  shows "classify (Some (WrapError (q @ '': '') e)) = classify (Some e)"
  using assms by (rule classify_wrap)

theorem classify_wrapped_witness:
  "classify (Some (WrapError ''kafka metadata request: '' (OpError ''dial tcp 10.0.0.1:9092''
      (SyscallError ''connect'' (Errno ECONNREFUSED))))) = Some ConnectionRefused"
proof -
  have "\<forall>c \<in> set ''kafka metadata request''. is_ascii c"
    "\<not> looks_like_auth_failure (''kafka metadata request'' @ '': '')" by code_simp+
  moreover have "classify (Some (OpError ''dial tcp 10.0.0.1:9092''
      (SyscallError ''connect'' (Errno ECONNREFUSED)))) = Some ConnectionRefused" by code_simp
  ultimately show ?thesis
    using classify_wrapped [of "''kafka metadata request''" "OpError ''dial tcp 10.0.0.1:9092''
      (SyscallError ''connect'' (Errno ECONNREFUSED))"]
    by (simp del: classify.simps)
qed

text \<open>
  The reasons have a fixed order of precedence. An expired deadline or a timed-out
  system call anywhere in the error makes it a timeout; otherwise a refused connection
  anywhere makes it that, whatever the text says; otherwise the text decides about
  credentials, before a remaining network error counts as unknown.
\<close>

theorem classify_precedence:
  "classify (Some e) =
    (if \<exists>x \<in> set (chain e). x \<in> {CtxDeadlineExceeded, IoDeadlineExceeded, NetTimeoutError}
       \<or> (\<exists>n. find is_net_error (chain e) = Some n \<and> timeout_flag n) then Some Timeout
     else if Errno ECONNREFUSED \<in> set (chain e) then Some ConnectionRefused
     else if looks_like_auth_failure (error_text e) then Some AuthFailed
     else if \<exists>x \<in> set (chain e). is_op_error x then Some Unknown
     else Some ProtocolError)"
proof -
  have ne: "chain e \<noteq> []" by (cases e) auto
  have "errors_as is_op_error e \<noteq> None \<longleftrightarrow> (\<exists>x \<in> set (chain e). is_op_error x)"
    by (auto simp: errors_as_def find_None_iff)
  moreover have "errors_is e CtxDeadlineExceeded \<or> errors_is e IoDeadlineExceeded \<longleftrightarrow>
      (\<exists>x \<in> set (chain e). x \<in> {CtxDeadlineExceeded, IoDeadlineExceeded, NetTimeoutError})"
    by (auto simp: errors_is_def is_target_def list_ex_iff)
  moreover have "errors_is e (Errno ECONNREFUSED) \<longleftrightarrow> Errno ECONNREFUSED \<in> set (chain e)"
    by (auto simp: errors_is_def is_target_def list_ex_iff)
  ultimately show ?thesis
    using ne by (auto simp: errors_as_def split: option.splits)
qed

text \<open>
  A check cut short because the caller went away is classified as a protocol error,
  as if the dependency had answered wrongly.
\<close>

theorem canceled_is_protocol_error:
  "classify (Some CtxCanceled) = Some ProtocolError \<and>
   classify (Some (WrapError ''redis ping: '' CtxCanceled)) = Some ProtocolError \<and>
   classify (Some (WrapError ''clickhouse ping: '' CtxCanceled)) = Some ProtocolError \<and>
   classify (Some (WrapError ''kafka metadata request: '' CtxCanceled)) = Some ProtocolError"
  by code_simp

end
