(* ===== verification/Health_Aggregate.thy ===== *)
theory Health_Aggregate
  imports Health_Checker Log_Handler
begin

text \<open>
  \<open>internal/health/aggregate.go\<close>, one call at a time: the aggregator's state, the cache, the
  check round, the result while shutting down. What callers do to each other is the subject
  of \<open>Health_Concurrent\<close>.
\<close>

section \<open>State\<close>

definition status_ready :: go_string where "status_ready = ''ready''"
definition status_not_ready :: go_string where "status_not_ready = ''not_ready''"

record health_result =
  res_status :: go_string
  res_service :: go_string
  res_version :: go_string
  res_evaluated_at :: instant
  res_shutting_down :: bool
  res_dependencies :: "status list"

text \<open>The options; \<open>ao_metrics\<close> says whether a recorder is configured.\<close>

record aggregator_options =
  ao_service :: go_string
  ao_version :: go_string
  ao_checkers :: "checker list"
  ao_timeout :: duration
  ao_cache_ttl :: duration
  ao_metrics :: bool

record aggregator =
  ag_opts :: aggregator_options
  ag_cached :: "health_result option"
  ag_shutting_down :: bool
  ag_check_rounds :: int

text \<open>What a round does besides its result: metric observations and log events, in order.\<close>

datatype effect =
    RecordCheck go_string bool duration
  | LogEvent req_context level go_string "attr list"

definition new_aggregator :: "aggregator_options \<Rightarrow> aggregator" where
  "new_aggregator opts =
     \<lparr>ag_opts = opts, ag_cached = None, ag_shutting_down = False, ag_check_rounds = 0\<rparr>"

definition begin_shutdown :: "aggregator \<Rightarrow> aggregator" where
  "begin_shutdown a = a\<lparr>ag_shutting_down := True\<rparr>"

definition check_rounds :: "aggregator \<Rightarrow> int" where
  "check_rounds a = ag_check_rounds a"

section \<open>Operations\<close>

definition fresh :: "aggregator \<Rightarrow> instant \<Rightarrow> health_result option" where
  "fresh a now =
     (case ag_cached a of
        None \<Rightarrow> None
      | Some r \<Rightarrow> if now - res_evaluated_at r \<ge> ao_cache_ttl (ag_opts a) then None else Some r)"

definition failure_event :: "req_context \<Rightarrow> status \<Rightarrow> effect" where
  "failure_event ctx st =
     LogEvent ctx level_error ''dependency_check_failed''
       [(''dependency'', VString (st_name st)),
        (''error_class'', VString (case st_reason st of None \<Rightarrow> '''' | Some r \<Rightarrow> reason_string r)),
        (''duration_ms'', VInt (st_duration_ms st)),
        error_attr (st_err st)]"

text \<open>The loop over the statuses: each is recorded, an unhealthy one also logged.\<close>

fun report :: "bool \<Rightarrow> req_context \<Rightarrow> status list \<Rightarrow> go_string \<times> effect list \<Rightarrow> go_string \<times> effect list" where
  "report metrics ctx [] (s, es) = (s, es)"
| "report metrics ctx (st # sts) (s, es) =
     (let es = es @ (if metrics
            then [RecordCheck (st_name st) (st_healthy st) (st_duration_ms st * 1000000)] else [])
      in if st_healthy st then report metrics ctx sts (s, es)
         else report metrics ctx sts (status_not_ready, es @ [failure_event ctx st]))"

text \<open>
  \<open>evaluateNow\<close>, started at \<open>now\<close>: the checks run concurrently, all from the same instant,
  and the round is over when the last one is.
\<close>

definition round_end :: "req_context \<Rightarrow> aggregator_options \<Rightarrow> instant \<Rightarrow> instant" where
  "round_end ctx opts now =
     fold (\<lambda>c t. max t (run_end ctx c (ao_timeout opts) now)) (ao_checkers opts) now"

definition evaluate_now ::
  "req_context \<Rightarrow> instant \<Rightarrow> aggregator \<Rightarrow> health_result \<times> effect list \<times> aggregator" where
  "evaluate_now ctx now a =
     (let a = a\<lparr>ag_check_rounds := ag_check_rounds a + 1\<rparr>;
          opts = ag_opts a;
          statuses = map (\<lambda>c. run ctx c (ao_timeout opts) now) (ao_checkers opts);
          (s, es) = report (ao_metrics opts) ctx statuses (status_ready, [])
      in (\<lparr>res_status = s, res_service = ao_service opts, res_version = ao_version opts,
           res_evaluated_at = round_end ctx opts now, res_shutting_down = False,
           res_dependencies = statuses\<rparr>, es, a))"

definition bare_status :: "go_string \<Rightarrow> status" where
  "bare_status name =
     \<lparr>st_name = name, st_healthy = False, st_duration_ms = 0, st_reason = None, st_checked_at = zero_time,
      st_err = None\<rparr>"

definition shutdown_result :: "aggregator \<Rightarrow> instant \<Rightarrow> health_result" where
  "shutdown_result a now =
     (let deps = (case ag_cached a of
            Some r \<Rightarrow> res_dependencies r
          | None \<Rightarrow> map (\<lambda>c. bare_status (ck_name c)) (ao_checkers (ag_opts a)))
      in \<lparr>res_status = status_not_ready, res_service = ao_service (ag_opts a),
          res_version = ao_version (ag_opts a), res_evaluated_at = now, res_shutting_down = True,
          res_dependencies = deps\<rparr>)"

text \<open>
  The function handed to the singleflight group: check the cache again, run a round, store
  its result.
\<close>

definition flight ::
  "req_context \<Rightarrow> instant \<Rightarrow> aggregator \<Rightarrow> health_result \<times> effect list \<times> aggregator" where
  "flight ctx now a =
     (case fresh a now of
        Some r \<Rightarrow> (r, [], a)
      | None \<Rightarrow> (let (r, es, a) = evaluate_now ctx now a in (r, es, a\<lparr>ag_cached := Some r\<rparr>)))"

text \<open>
  \<open>Evaluate\<close> for a caller that is alone: nobody's flight to join, nobody to begin the
  shutdown while the round runs.
\<close>

definition evaluate ::
  "req_context \<Rightarrow> instant \<Rightarrow> aggregator \<Rightarrow> health_result \<times> effect list \<times> aggregator" where
  "evaluate ctx now a =
     (if ag_shutting_down a then (shutdown_result a now, [], a)
      else (case fresh a now of
          Some r \<Rightarrow> (r, [], a)
        | None \<Rightarrow>
            (let (r, es, a) = flight ctx now a in
             if ag_shutting_down a
             then (shutdown_result a (max now (res_evaluated_at r)), es, a) else (r, es, a))))"

text \<open>When a call that begins at \<open>now\<close> has its answer.\<close>

definition answer_time :: "req_context \<Rightarrow> instant \<Rightarrow> aggregator \<Rightarrow> instant" where
  "answer_time ctx now a =
     (if ag_shutting_down a \<or> fresh a now \<noteq> None then now else round_end ctx (ag_opts a) now)"

section \<open>Facts about a round\<close>

lemma report_snd:
  "report m ctx sts (s, es) =
     (if list_all st_healthy sts then s else status_not_ready,
      es @ concat (map (\<lambda>st. (if m then [RecordCheck (st_name st) (st_healthy st)
              (st_duration_ms st * 1000000)] else []) @
            (if st_healthy st then [] else [failure_event ctx st])) sts))"
  by (induction sts arbitrary: s es) (auto simp: Let_def)

lemma run_simps [health_simps]:
  "st_name (run ctx c d now) = ck_name c"
  "st_healthy (run ctx c d now) = (fst (ck_check c (with_timeout ctx now d) now) = None)"
  "st_duration_ms (run ctx c d now) = milliseconds (snd (ck_check c (with_timeout ctx now d) now))"
  "st_err (run ctx c d now) = fst (ck_check c (with_timeout ctx now d) now)"
  "st_reason (run ctx c d now) = classify (fst (ck_check c (with_timeout ctx now d) now))"
  by (simp_all add: run_def Let_def split_beta)

lemma fold_max_ge: "(t :: int) \<le> fold (\<lambda>c t. max t (f c)) cs t"
proof (induction cs arbitrary: t)
  case (Cons c cs)
  from Cons [of "max t (f c)"] show ?case by simp
qed simp

lemma fold_max_le:
  "t \<le> (b :: int) \<Longrightarrow> \<forall>c \<in> set cs. f c \<le> b \<Longrightarrow> fold (\<lambda>c t. max t (f c)) cs t \<le> b"
  by (induction cs arbitrary: t) auto

lemma round_end_ge: "now \<le> round_end ctx opts now"
  unfolding round_end_def by (rule fold_max_ge)

lemma evaluate_now_simps [health_simps]:
  "fst (evaluate_now ctx now a) =
     \<lparr>res_status = (if list_all (\<lambda>c. fst (ck_check c (with_timeout ctx now (ao_timeout (ag_opts a))) now) = None)
          (ao_checkers (ag_opts a)) then status_ready else status_not_ready),
      res_service = ao_service (ag_opts a), res_version = ao_version (ag_opts a),
      res_evaluated_at = round_end ctx (ag_opts a) now, res_shutting_down = False,
      res_dependencies = map (\<lambda>c. run ctx c (ao_timeout (ag_opts a)) now) (ao_checkers (ag_opts a))\<rparr>"
  "snd (snd (evaluate_now ctx now a)) = a\<lparr>ag_check_rounds := ag_check_rounds a + 1\<rparr>"
  by (simp_all add: evaluate_now_def Let_def split_beta report_snd list_all_iff run_simps)

lemma evaluate_shutting_down [health_simps]:
  "ag_shutting_down a \<Longrightarrow> evaluate ctx now a = (shutdown_result a now, [], a)"
  by (simp add: evaluate_def)

lemma evaluate_cached [health_simps]:
  "\<not> ag_shutting_down a \<Longrightarrow> fresh a now = Some r \<Longrightarrow> evaluate ctx now a = (r, [], a)"
  by (simp add: evaluate_def)

lemma evaluate_stale [health_simps]:
  assumes "\<not> ag_shutting_down a" "fresh a now = None"
  shows "fst (evaluate ctx now a) = fst (evaluate_now ctx now a)"
    "fst (snd (evaluate ctx now a)) = fst (snd (evaluate_now ctx now a))"
    "snd (snd (evaluate ctx now a)) =
      a\<lparr>ag_check_rounds := ag_check_rounds a + 1, ag_cached := Some (fst (evaluate_now ctx now a))\<rparr>"
  using assms by (simp_all add: evaluate_def flight_def split_beta Let_def evaluate_now_simps(2))

end
