(* ===== verification/Health_Handler.thy ===== *)
theory Health_Handler
  imports Health_Aggregate
begin

text \<open>
  \<open>internal/health/handler.go\<close>: the two health endpoints and the JSON they serve.
\<close>

definition live_path :: go_string where "live_path = ''/v1/health/live''"
definition ready_path :: go_string where "ready_path = ''/v1/health/ready''"
definition status_alive :: go_string where "status_alive = ''alive''"

text \<open>What a handler does to its \<open>ResponseWriter\<close>: headers set, then the code, then the body.\<close>

record response =
  rsp_code :: int
  rsp_headers :: "(go_string \<times> go_string) list"
  rsp_body :: go_string

record liveness_response =
  lr_status :: go_string
  lr_service :: go_string
  lr_version :: go_string

definition liveness_json :: "liveness_response \<Rightarrow> json" where
  "liveness_json r =
     JObj [(''status'', JStr (lr_status r)), (''service'', JStr (lr_service r)),
           (''version'', JStr (lr_version r))]"

definition liveness_handler :: "go_string \<Rightarrow> go_string \<Rightarrow> response" where
  "liveness_handler service version =
     (let body = render marshal_escaping (liveness_json
            \<lparr>lr_status = status_alive, lr_service = service, lr_version = version\<rparr>)
      in \<lparr>rsp_code = 200, rsp_headers = [(''Content-Type'', ''application/json'')],
          rsp_body = body\<rparr>)"

text \<open>
  The JSON of a status and of a result, by their field tags: \<open>reason\<close> and
  \<open>shutting_down\<close> are omitted when empty, the time of the check and the error always.
\<close>

definition status_json :: "status \<Rightarrow> json" where
  "status_json st =
     JObj ([(''name'', JStr (st_name st)), (''healthy'', JBool (st_healthy st)),
            (''duration_ms'', JInt (st_duration_ms st))] @
           (case st_reason st of None \<Rightarrow> [] | Some r \<Rightarrow> [(''reason'', JStr (reason_string r))]))"

definition result_json :: "health_result \<Rightarrow> json" where
  "result_json r =
     JObj ([(''status'', JStr (res_status r)), (''service'', JStr (res_service r)),
            (''version'', JStr (res_version r)),
            (''evaluated_at'', JStr (format_nanos (res_evaluated_at r)))] @
           (if res_shutting_down r then [(''shutting_down'', JBool True)] else []) @
           [(''dependencies'', JArr (map status_json (res_dependencies r)))])"

definition readiness_response :: "health_result \<Rightarrow> response" where
  "readiness_response r =
     \<lparr>rsp_code = (if res_status r \<noteq> status_ready then 503 else 200),
      rsp_headers = [(''Content-Type'', ''application/json''), (''Cache-Control'', ''no-store'')],
      rsp_body = render encoder_escaping (result_json r) @ [CHR 0x0A]\<rparr>"

definition readiness_handler ::
  "req_context \<Rightarrow> instant \<Rightarrow> aggregator \<Rightarrow> response \<times> effect list \<times> aggregator" where
  "readiness_handler ctx now a =
     (let (r, es, a) = evaluate ctx now a in (readiness_response r, es, a))"

end
