(* ===== verification/Health_Clients.thy ===== *)
theory Health_Clients
  imports Health_Checker
begin

text \<open>
  \<open>internal/health/kafka.go\<close>, \<open>clickhouse.go\<close>, \<open>redis.go\<close>: the three checkers, each with a
  client that its first check builds. The client libraries are parameters: a constructor
  and the request that a check sends.
\<close>

section \<open>Kafka\<close>

record 'cl kafka_checker =
  kc_brokers :: "go_string list"
  kc_once :: bool
  kc_client :: "'cl option"
  kc_init_err :: "go_error option"

definition new_kafka_checker :: "go_string list \<Rightarrow> 'cl kafka_checker" where
  "new_kafka_checker brokers =
     \<lparr>kc_brokers = brokers, kc_once = False, kc_client = None, kc_init_err = None\<rparr>"

text \<open>\<open>once.Do\<close> around \<open>kgo.NewClient\<close>, which answers a client or an error.\<close>

definition kafka_init ::
  "(go_string list \<Rightarrow> go_error + 'cl) \<Rightarrow> 'cl kafka_checker \<Rightarrow> 'cl kafka_checker" where
  "kafka_init new_client c =
     (if kc_once c then c
      else (case new_client (kc_brokers c) of
              Inl e \<Rightarrow> c\<lparr>kc_once := True, kc_client := None, kc_init_err := Some e\<rparr>
            | Inr cl \<Rightarrow> c\<lparr>kc_once := True, kc_client := Some cl, kc_init_err := None\<rparr>))"

definition kafka_check ::
  "(go_string list \<Rightarrow> go_error + 'cl) \<Rightarrow> ('cl option \<Rightarrow> go_error option) \<Rightarrow>
   'cl kafka_checker \<Rightarrow> go_error option \<times> 'cl kafka_checker" where
  "kafka_check new_client metadata c =
     (let c = kafka_init new_client c in
      case kc_init_err c of
        Some e \<Rightarrow> (Some (WrapError ''building kafka client: '' e), c)
      | None \<Rightarrow> (map_option (WrapError ''kafka metadata request: '') (metadata (kc_client c)), c))"

text \<open>\<open>Close\<close>: the error returned, and the client on which the library's close is called.\<close>

definition kafka_close :: "'cl kafka_checker \<Rightarrow> go_error option \<times> 'cl option" where
  "kafka_close c = (None, kc_client c)"

section \<open>ClickHouse\<close>

record clickhouse_config =
  chc_addr :: go_string
  chc_database :: go_string
  chc_user :: go_string
  chc_password :: go_string

record clickhouse_options =
  cho_addr :: "go_string list"
  cho_auth_database :: go_string
  cho_auth_username :: go_string
  cho_auth_password :: go_string

record 'cl clickhouse_checker =
  cc_opts :: clickhouse_options
  cc_once :: bool
  cc_conn :: "'cl option"
  cc_init_err :: "go_error option"

definition new_clickhouse_checker :: "clickhouse_config \<Rightarrow> 'cl clickhouse_checker" where
  "new_clickhouse_checker cfg =
     \<lparr>cc_opts = \<lparr>cho_addr = [chc_addr cfg], cho_auth_database = chc_database cfg,
        cho_auth_username = chc_user cfg, cho_auth_password = chc_password cfg\<rparr>,
      cc_once = False, cc_conn = None, cc_init_err = None\<rparr>"

definition clickhouse_init ::
  "(clickhouse_options \<Rightarrow> go_error + 'cl) \<Rightarrow> 'cl clickhouse_checker \<Rightarrow> 'cl clickhouse_checker" where
  "clickhouse_init open_conn c =
     (if cc_once c then c
      else (case open_conn (cc_opts c) of
              Inl e \<Rightarrow> c\<lparr>cc_once := True, cc_conn := None, cc_init_err := Some e\<rparr>
            | Inr cl \<Rightarrow> c\<lparr>cc_once := True, cc_conn := Some cl, cc_init_err := None\<rparr>))"

definition clickhouse_check ::
  "(clickhouse_options \<Rightarrow> go_error + 'cl) \<Rightarrow> ('cl option \<Rightarrow> go_error option) \<Rightarrow>
   'cl clickhouse_checker \<Rightarrow> go_error option \<times> 'cl clickhouse_checker" where
  "clickhouse_check open_conn ping c =
     (let c = clickhouse_init open_conn c in
      case cc_init_err c of
        Some e \<Rightarrow> (Some (WrapError ''building clickhouse client: '' e), c)
      | None \<Rightarrow> (map_option (WrapError ''clickhouse ping: '') (ping (cc_conn c)), c))"

text \<open>\<open>close_conn\<close> is the library's close and the error it returns.\<close>

definition clickhouse_close ::
  "('cl \<Rightarrow> go_error option) \<Rightarrow> 'cl clickhouse_checker \<Rightarrow> go_error option \<times> 'cl option" where
  "clickhouse_close close_conn c =
     (case cc_conn c of Some cl \<Rightarrow> (close_conn cl, Some cl) | None \<Rightarrow> (None, None))"

section \<open>Redis\<close>

record redis_config =
  rdc_addr :: go_string
  rdc_password :: go_string

record redis_options =
  rdo_addr :: go_string
  rdo_password :: go_string
  rdo_max_retries :: int
  rdo_dial_timeout :: duration

record 'cl redis_checker =
  rc_opts :: redis_options
  rc_once :: bool
  rc_client :: "'cl option"

definition new_redis_checker :: "redis_config \<Rightarrow> 'cl redis_checker" where
  "new_redis_checker cfg =
     \<lparr>rc_opts = \<lparr>rdo_addr = rdc_addr cfg, rdo_password = rdc_password cfg,
        rdo_max_retries = -1, rdo_dial_timeout = second\<rparr>,
      rc_once = False, rc_client = None\<rparr>"

definition redis_init ::
  "(redis_options \<Rightarrow> 'cl) \<Rightarrow> 'cl redis_checker \<Rightarrow> 'cl redis_checker" where
  "redis_init new_client c =
     (if rc_once c then c else c\<lparr>rc_once := True, rc_client := Some (new_client (rc_opts c))\<rparr>)"

definition redis_check ::
  "(redis_options \<Rightarrow> 'cl) \<Rightarrow> ('cl option \<Rightarrow> go_error option) \<Rightarrow>
   'cl redis_checker \<Rightarrow> go_error option \<times> 'cl redis_checker" where
  "redis_check new_client ping c =
     (let c = redis_init new_client c in
      (map_option (WrapError ''redis ping: '') (ping (rc_client c)), c))"

definition redis_close ::
  "('cl \<Rightarrow> go_error option) \<Rightarrow> 'cl redis_checker \<Rightarrow> go_error option \<times> 'cl option" where
  "redis_close close_client c =
     (case rc_client c of Some cl \<Rightarrow> (close_client cl, Some cl) | None \<Rightarrow> (None, None))"

section \<open>The lazily built client\<close>

text \<open>
  What the three have in common: the first check builds the client, later ones leave the
  checker as it is; \<open>Close\<close> closes exactly what was built; a failed request is answered
  with the request's error behind a fixed prefix.
\<close>

definition kafka_ok :: "'cl kafka_checker \<Rightarrow> bool" where
  "kafka_ok c \<longleftrightarrow> (kc_once c \<longrightarrow> (kc_client c = None) = (kc_init_err c \<noteq> None))"

definition clickhouse_ok :: "'cl clickhouse_checker \<Rightarrow> bool" where
  "clickhouse_ok c \<longleftrightarrow> (cc_once c \<longrightarrow> (cc_conn c = None) = (cc_init_err c \<noteq> None))"

definition redis_ok :: "'cl redis_checker \<Rightarrow> bool" where
  "redis_ok c \<longleftrightarrow> (rc_once c \<longrightarrow> rc_client c \<noteq> None)"

locale lazy_checker =
  fixes init :: "'s \<Rightarrow> 's"
    and check :: "('cl option \<Rightarrow> go_error option) \<Rightarrow> 's \<Rightarrow> go_error option \<times> 's"
    and close :: "'s \<Rightarrow> go_error option \<times> 'cl option"
    and once :: "'s \<Rightarrow> bool"
    and client :: "'s \<Rightarrow> 'cl option"
    and ok :: "'s \<Rightarrow> bool"
    and request_prefix :: go_string
  assumes init_once: "once (init s)"
    and init_done: "once s \<Longrightarrow> init s = s"
    and init_ok: "ok s \<Longrightarrow> ok (init s)"
    and check_state: "snd (check req s) = init s"
    and check_init: "check req (init s) = check req s"
    and check_request: "ok s \<Longrightarrow> client (init s) \<noteq> None \<Longrightarrow>
      fst (check req s) = map_option (WrapError request_prefix) (req (client (init s)))"
    and check_broken: "ok s \<Longrightarrow> client (init s) = None \<Longrightarrow> fst (check req s) \<noteq> None"
    and close_client: "snd (close s) = client s"
begin

definition run_checks :: "('cl option \<Rightarrow> go_error option) list \<Rightarrow> 's \<Rightarrow> 's" where
  "run_checks reqs s = fold (\<lambda>req s. snd (check req s)) reqs s"

lemma run_checks_state: "run_checks reqs s = (if reqs = [] then s else init s)"
proof -
  have stay: "fold (\<lambda>req. init) reqs (init s) = init s" for reqs s
    by (induction reqs) (simp_all add: init_done init_once)
  show ?thesis
    by (cases reqs) (simp_all add: run_checks_def check_state stay)
qed

lemma init_init: "init (init s) = init s"
  by (simp add: init_done init_once)

lemma check_after_checks:
  "check req (run_checks reqs s) = check req s" "init (run_checks reqs s) = init s"
  by (simp_all add: run_checks_state check_init init_init)

lemma same_client: "reqs \<noteq> [] \<Longrightarrow> client (run_checks (reqs @ reqs') s) = client (run_checks reqs s)"
  by (simp add: run_checks_state)

lemma close_after_checks: "reqs \<noteq> [] \<Longrightarrow> snd (close (run_checks reqs s)) = client (init s)"
  by (simp add: close_client run_checks_state)

lemma later_check:
  "ok s \<Longrightarrow> client (init s) \<noteq> None \<Longrightarrow>
     fst (check req (run_checks reqs s)) = map_option (WrapError request_prefix) (req (client (init s)))"
  by (simp add: run_checks_state init_done init_once init_ok check_request)

lemma broken_stays:
  "ok s \<Longrightarrow> client (init s) = None \<Longrightarrow> fst (check req (run_checks reqs s)) \<noteq> None"
  by (simp add: run_checks_state check_broken init_done init_once init_ok)

end

interpretation kafka: lazy_checker "kafka_init new_client" "kafka_check new_client" kafka_close
  kc_once kc_client kafka_ok "''kafka metadata request: ''"
  by unfold_locales
    (auto simp: kafka_init_def kafka_check_def kafka_close_def kafka_ok_def Let_def
      split: sum.splits option.splits)

interpretation clickhouse: lazy_checker "clickhouse_init open_conn" "clickhouse_check open_conn"
  "clickhouse_close close_conn" cc_once cc_conn clickhouse_ok "''clickhouse ping: ''"
  by unfold_locales
    (auto simp: clickhouse_init_def clickhouse_check_def clickhouse_close_def clickhouse_ok_def Let_def
      split: sum.splits option.splits)

interpretation redis: lazy_checker "redis_init new_client" "redis_check new_client"
  "redis_close close_client" rc_once rc_client redis_ok "''redis ping: ''"
  by unfold_locales
    (auto simp: redis_init_def redis_check_def redis_close_def redis_ok_def Let_def
      split: sum.splits option.splits if_splits)

end
