(* ===== verification/Health_Concurrent.thy ===== *)
theory Health_Concurrent
  imports Health_Aggregate
begin

text \<open>
  \<open>Aggregator.Evaluate\<close> under concurrency: any number of callers, each somewhere in the code
  of \<open>Evaluate\<close>, the shutdown that may begin at any moment, and time. A step is one atomic
  action of one of them: a read of the flag, a locked read or write of the cache, an action
  of the singleflight group.

  \<open>golang.org/x/sync/singleflight\<close> is used as documented: one execution of the function is
  in flight at a time, and a caller that arrives meanwhile waits for it and gets its result.
\<close>

section \<open>Callers and the world\<close>

datatype pc =
    Idle                      \<comment> \<open>has not called yet\<close>
  | Checked                   \<comment> \<open>has read the flag, which was not set\<close>
  | Missed                    \<comment> \<open>has found no fresh result in the cache\<close>
  | Leading                   \<comment> \<open>runs the flight's function\<close>
  | Probing instant           \<comment> \<open>has started a check round then\<close>
  | Publishing health_result  \<comment> \<open>has the round's result\<close>
  | Landed health_result      \<comment> \<open>is done with the flight's function\<close>
  | Waiting                   \<comment> \<open>waits for the flight of another caller\<close>
  | Returned health_result    \<comment> \<open>has the flight's result\<close>
  | Answered health_result    \<comment> \<open>has returned\<close>

record world =
  w_now :: instant
  w_ag :: aggregator
  w_flight :: "nat option"
  w_pc :: "nat \<Rightarrow> pc"
  w_effects :: "(instant \<times> effect) list"
  w_rounds :: "instant list"

definition initial :: "aggregator_options \<Rightarrow> instant \<Rightarrow> world" where
  "initial opts t =
     \<lparr>w_now = t, w_ag = new_aggregator opts, w_flight = None, w_pc = (\<lambda>_. Idle), w_effects = [],
      w_rounds = []\<rparr>"

definition set_pc :: "world \<Rightarrow> nat \<Rightarrow> pc \<Rightarrow> world" where
  "set_pc w i p = w\<lparr>w_pc := (w_pc w)(i := p)\<rparr>"

text \<open>The result of the round that caller \<open>i\<close> started at \<open>t\<close>, stamped at the present instant.\<close>

definition round_result :: "req_context \<Rightarrow> instant \<Rightarrow> world \<Rightarrow> health_result" where
  "round_result ctx t w = (fst (evaluate_now ctx t (w_ag w)))\<lparr>res_evaluated_at := w_now w\<rparr>"

definition round_effects :: "req_context \<Rightarrow> instant \<Rightarrow> world \<Rightarrow> effect list" where
  "round_effects ctx t w = fst (snd (evaluate_now ctx t (w_ag w)))"

section \<open>Steps\<close>

text \<open>\<open>cx i\<close> is the context that caller \<open>i\<close> passes.\<close>

inductive step :: "(nat \<Rightarrow> req_context) \<Rightarrow> world \<Rightarrow> world \<Rightarrow> bool" for cx where
  tick: "0 \<le> d \<Longrightarrow> step cx w (w\<lparr>w_now := w_now w + d\<rparr>)"
| begin_down: "step cx w (w\<lparr>w_ag := begin_shutdown (w_ag w)\<rparr>)"
| refuse: "w_pc w i = Idle \<Longrightarrow> ag_shutting_down (w_ag w) \<Longrightarrow>
    step cx w (set_pc w i (Answered (shutdown_result (w_ag w) (w_now w))))"
| enter: "w_pc w i = Idle \<Longrightarrow> \<not> ag_shutting_down (w_ag w) \<Longrightarrow> step cx w (set_pc w i Checked)"
| hit: "w_pc w i = Checked \<Longrightarrow> fresh (w_ag w) (w_now w) = Some r \<Longrightarrow>
    step cx w (set_pc w i (Answered r))"
| miss: "w_pc w i = Checked \<Longrightarrow> fresh (w_ag w) (w_now w) = None \<Longrightarrow> step cx w (set_pc w i Missed)"
| lead: "w_pc w i = Missed \<Longrightarrow> w_flight w = None \<Longrightarrow>
    step cx w (set_pc (w\<lparr>w_flight := Some i\<rparr>) i Leading)"
| join: "w_pc w i = Missed \<Longrightarrow> w_flight w = Some j \<Longrightarrow> step cx w (set_pc w i Waiting)"
| rehit: "w_pc w i = Leading \<Longrightarrow> fresh (w_ag w) (w_now w) = Some r \<Longrightarrow>
    step cx w (set_pc w i (Landed r))"
| start: "w_pc w i = Leading \<Longrightarrow> fresh (w_ag w) (w_now w) = None \<Longrightarrow>
    step cx w (set_pc (w\<lparr>w_ag := (w_ag w)\<lparr>ag_check_rounds := ag_check_rounds (w_ag w) + 1\<rparr>,
      w_rounds := w_now w # w_rounds w\<rparr>) i (Probing (w_now w)))"
| finish: "w_pc w i = Probing t \<Longrightarrow> round_end (cx i) (ag_opts (w_ag w)) t \<le> w_now w \<Longrightarrow>
    step cx w (set_pc (w\<lparr>w_effects := w_effects w @ map (Pair (w_now w)) (round_effects (cx i) t w)\<rparr>) i
      (Publishing (round_result (cx i) t w)))"
| publish: "w_pc w i = Publishing r \<Longrightarrow>
    step cx w (set_pc (w\<lparr>w_ag := (w_ag w)\<lparr>ag_cached := Some r\<rparr>\<rparr>) i (Landed r))"
| land: "w_pc w i = Landed r \<Longrightarrow>
    step cx w (w\<lparr>w_flight := None,
      w_pc := (\<lambda>j. if j = i \<or> w_pc w j = Waiting then Returned r else w_pc w j)\<rparr>)"
| recheck_down: "w_pc w i = Returned r \<Longrightarrow> ag_shutting_down (w_ag w) \<Longrightarrow>
    step cx w (set_pc w i (Answered (shutdown_result (w_ag w) (w_now w))))"
| recheck: "w_pc w i = Returned r \<Longrightarrow> \<not> ag_shutting_down (w_ag w) \<Longrightarrow>
    step cx w (set_pc w i (Answered r))"

inductive steps :: "(nat \<Rightarrow> req_context) \<Rightarrow> world \<Rightarrow> world \<Rightarrow> bool" for cx where
  refl: "steps cx w w"
| more: "steps cx w w' \<Longrightarrow> step cx w' w'' \<Longrightarrow> steps cx w w''"

lemma steps_trans: "steps cx v w \<Longrightarrow> steps cx u v \<Longrightarrow> steps cx u w"
  by (induction rule: steps.induct) (auto intro: steps.more)

lemma steps_one: "step cx w w' \<Longrightarrow> steps cx w w'"
  by (rule steps.more [OF steps.refl])

lemma set_pc_simps [health_simps]:
  "w_now (set_pc w i p) = w_now w" "w_ag (set_pc w i p) = w_ag w"
  "w_flight (set_pc w i p) = w_flight w" "w_effects (set_pc w i p) = w_effects w"
  "w_rounds (set_pc w i p) = w_rounds w" "w_pc (set_pc w i p) j = (if j = i then p else w_pc w j)"
  by (simp_all add: set_pc_def)

text \<open>Executions in which nobody calls any more: no caller leaves \<open>Idle\<close>.\<close>

definition calm :: "world \<Rightarrow> world \<Rightarrow> bool" where
  "calm w w' \<longleftrightarrow> (\<forall>j. w_pc w j = Idle \<longrightarrow> w_pc w' j = Idle)"

definition quiet :: "(nat \<Rightarrow> req_context) \<Rightarrow> world \<Rightarrow> world \<Rightarrow> bool" where
  "quiet cx = (\<lambda>w w'. step cx w w' \<and> calm w w')\<^sup>*\<^sup>*"

lemma calm_simps [simp]:
  "calm w (w\<lparr>w_now := n\<rparr>)"
  "w_pc w i \<noteq> Idle \<Longrightarrow> calm w (set_pc w i p)"
  "calm w (set_pc (w\<lparr>w_flight := f\<rparr>) i p) = calm w (set_pc w i p)"
  "calm w (set_pc (w\<lparr>w_ag := a\<rparr>) i p) = calm w (set_pc w i p)"
  "calm w (set_pc (w\<lparr>w_ag := a, w_rounds := ts\<rparr>) i p) = calm w (set_pc w i p)"
  "calm w (set_pc (w\<lparr>w_effects := es\<rparr>) i p) = calm w (set_pc w i p)"
  by (simp_all add: calm_def set_pc_simps)

lemma calm_land:
  "w_pc w i = Landed r \<Longrightarrow> calm w (w\<lparr>w_flight := f,
     w_pc := (\<lambda>j. if j = i \<or> w_pc w j = Waiting then Returned r else w_pc w j)\<rparr>)"
  by (simp add: calm_def)

lemma quiet_refl [simp]: "quiet cx w w"
  by (simp add: quiet_def)

lemma quiet_step: "step cx w w' \<Longrightarrow> calm w w' \<Longrightarrow> quiet cx w' w'' \<Longrightarrow> quiet cx w w''"
  unfolding quiet_def by (rule converse_rtranclp_into_rtranclp) simp_all

lemma quiet_one: "step cx w w' \<Longrightarrow> calm w w' \<Longrightarrow> quiet cx w w'"
  by (rule quiet_step [OF _ _ quiet_refl])

lemma quiet_trans: "quiet cx u v \<Longrightarrow> quiet cx v w \<Longrightarrow> quiet cx u w"
  unfolding quiet_def by (rule rtranclp_trans)

lemma quiet_steps: "quiet cx w w' \<Longrightarrow> steps cx w w'"
  unfolding quiet_def by (induction rule: rtranclp_induct) (auto intro: steps.intros)

section \<open>The invariant\<close>

fun in_flight :: "pc \<Rightarrow> bool" where
  "in_flight Leading = True"
| "in_flight (Probing _) = True"
| "in_flight (Publishing _) = True"
| "in_flight (Landed _) = True"
| "in_flight _ = False"

text \<open>
  The last round that was begun: a caller that probes is in it, and a result about to be stored
  is its result, stamped between its start and now.
\<close>

definition last_round_ok :: "world \<Rightarrow> bool" where
  "last_round_ok w \<longleftrightarrow>
     (case w_rounds w of
        [] \<Rightarrow> (\<forall>i t. w_pc w i \<noteq> Probing t) \<and> (\<forall>i r. w_pc w i \<noteq> Publishing r)
      | t # _ \<Rightarrow> t \<le> w_now w \<and> (\<forall>i u. w_pc w i = Probing u \<longrightarrow> u = t) \<and>
          (\<forall>i r. w_pc w i = Publishing r \<longrightarrow> t \<le> res_evaluated_at r \<and> res_evaluated_at r \<le> w_now w))"

definition flight_ok :: "world \<Rightarrow> bool" where
  "flight_ok w \<longleftrightarrow> (\<forall>i. in_flight (w_pc w i) \<longleftrightarrow> w_flight w = Some i) \<and>
     (\<forall>i. w_pc w i = Waiting \<longrightarrow> w_flight w \<noteq> None)"

definition rounds_ok :: "instant \<Rightarrow> world \<Rightarrow> bool" where
  "rounds_ok t0 w \<longleftrightarrow>
     ag_check_rounds (w_ag w) = int (length (w_rounds w)) \<and>
     t0 \<le> w_now w \<and> (\<forall>t \<in> set (w_rounds w). t0 \<le> t \<and> t \<le> w_now w) \<and> last_round_ok w"

lemma flight_ok_initial: "flight_ok (initial opts t0)"
  by (simp add: flight_ok_def initial_def)

lemma rounds_ok_initial: "rounds_ok t0 (initial opts t0)"
  by (simp add: rounds_ok_def initial_def new_aggregator_def last_round_ok_def)

lemma step_opts: "step cx w w' \<Longrightarrow> ag_opts (w_ag w') = ag_opts (w_ag w)"
  by (cases rule: step.cases) (auto simp: set_pc_simps begin_shutdown_def)

lemma flight_ok_set_pc:
  assumes "flight_ok w" "in_flight p = in_flight (w_pc w i)" "p = Waiting \<Longrightarrow> w_flight w \<noteq> None"
  shows "flight_ok (set_pc w i p)"
  using assms by (auto simp: flight_ok_def set_pc_simps split: if_splits)

lemma flight_ok_update:
  "flight_ok (w\<lparr>w_now := n\<rparr>) = flight_ok w" "flight_ok (w\<lparr>w_ag := a\<rparr>) = flight_ok w"
  "flight_ok (w\<lparr>w_effects := es\<rparr>) = flight_ok w" "flight_ok (w\<lparr>w_rounds := ts\<rparr>) = flight_ok w"
  by (simp_all add: flight_ok_def)

lemma flight_ok_lead:
  "flight_ok w \<Longrightarrow> w_flight w = None \<Longrightarrow> flight_ok (set_pc (w\<lparr>w_flight := Some i\<rparr>) i Leading)"
  by (auto simp: flight_ok_def set_pc_simps)

lemma flight_ok_land:
  assumes "flight_ok w" "w_pc w i = Landed r"
  shows "flight_ok (w\<lparr>w_flight := None,
    w_pc := (\<lambda>j. if j = i \<or> w_pc w j = Waiting then Returned r else w_pc w j)\<rparr>)"
proof -
  have "\<not> in_flight (w_pc w j)" if "j \<noteq> i" for j
    using assms that by (metis flight_ok_def in_flight.simps(4) option.inject)
  then show ?thesis by (simp add: flight_ok_def)
qed

lemma step_flight_ok:
  assumes "step cx w w'" "flight_ok w"
  shows "flight_ok w'"
  using assms(1)
proof (cases rule: step.cases)
  case (lead i)
  with flight_ok_lead assms(2) show ?thesis by simp
next
  case (land i r)
  with flight_ok_land assms(2) show ?thesis by simp
qed (use assms(2) in \<open>auto intro!: flight_ok_set_pc simp: flight_ok_update\<close>)

lemma alone:
  "flight_ok w \<Longrightarrow> in_flight (w_pc w i) \<Longrightarrow> in_flight (w_pc w j) \<Longrightarrow> i = j"
  by (auto simp: flight_ok_def)

text \<open>A caller that is in no round moves on without touching what the invariant speaks of.\<close>

fun in_round :: "pc \<Rightarrow> bool" where
  "in_round (Probing _) = True"
| "in_round (Publishing _) = True"
| "in_round _ = False"

lemma in_round_iff: "in_round p \<longleftrightarrow> (\<exists>t. p = Probing t) \<or> (\<exists>r. p = Publishing r)"
  by (cases p) auto

lemma last_round_ok_same:
  assumes "w_rounds w' = w_rounds w" "w_now w' = w_now w"
    "\<And>i u. w_pc w' i = Probing u \<longleftrightarrow> w_pc w i = Probing u"
    "\<And>i r. w_pc w' i = Publishing r \<longleftrightarrow> w_pc w i = Publishing r"
  shows "last_round_ok w' = last_round_ok w"
  unfolding last_round_ok_def assms by (simp only:)

lemma last_round_ok_set_pc:
  assumes "\<not> in_round p" "\<not> in_round (w_pc w i)"
  shows "last_round_ok (set_pc w i p) = last_round_ok w"
  using assms by (intro last_round_ok_same) (auto simp: set_pc_simps in_round_iff)

lemma rounds_ok_set_pc:
  "rounds_ok t0 w \<Longrightarrow> \<not> in_round p \<Longrightarrow> \<not> in_round (w_pc w i) \<Longrightarrow> rounds_ok t0 (set_pc w i p)"
  using last_round_ok_set_pc by (simp add: rounds_ok_def set_pc_simps)

lemma last_round_ok_tick: "last_round_ok w \<Longrightarrow> 0 \<le> d \<Longrightarrow> last_round_ok (w\<lparr>w_now := w_now w + d\<rparr>)"
  by (cases "w_rounds w") (auto simp: last_round_ok_def intro: add_increasing2)

lemma rounds_ok_tick:
  assumes "rounds_ok t0 w" "0 \<le> d"
  shows "rounds_ok t0 (w\<lparr>w_now := w_now w + d\<rparr>)"
proof -
  have "\<forall>t \<in> set (w_rounds w). t0 \<le> t \<and> t \<le> w_now w + d"
    using assms by (meson add_increasing2 rounds_ok_def)
  with assms last_round_ok_tick show ?thesis by (simp add: rounds_ok_def)
qed

lemma rounds_ok_update:
  "rounds_ok t0 (w\<lparr>w_ag := begin_shutdown (w_ag w)\<rparr>) = rounds_ok t0 w"
  "rounds_ok t0 (w\<lparr>w_flight := f\<rparr>) = rounds_ok t0 w"
  by (simp_all add: rounds_ok_def last_round_ok_def begin_shutdown_def split: list.splits)

lemma rounds_ok_land:
  assumes "rounds_ok t0 w" "w_pc w i = Landed r"
  shows "rounds_ok t0 (w\<lparr>w_flight := None,
    w_pc := (\<lambda>j. if j = i \<or> w_pc w j = Waiting then Returned r else w_pc w j)\<rparr>)"
proof -
  have "last_round_ok (w\<lparr>w_flight := None,
    w_pc := (\<lambda>j. if j = i \<or> w_pc w j = Waiting then Returned r else w_pc w j)\<rparr>) = last_round_ok w"
    using assms(2) by (intro last_round_ok_same) auto
  with assms(1) show ?thesis by (simp add: rounds_ok_def)
qed

lemma rounds_ok_start:
  assumes "rounds_ok t0 w" "flight_ok w" "w_pc w i = Leading"
  shows "rounds_ok t0 (set_pc (w\<lparr>w_ag := (w_ag w)\<lparr>ag_check_rounds := ag_check_rounds (w_ag w) + 1\<rparr>,
      w_rounds := w_now w # w_rounds w\<rparr>) i (Probing (w_now w)))"
proof -
  have none: "w_pc w j \<noteq> Probing u" "w_pc w j \<noteq> Publishing r" for j u r
    using alone [OF assms(2), of i j] assms(3) by auto
  with assms(1) show ?thesis
    by (auto simp: rounds_ok_def last_round_ok_def set_pc_simps)
qed

lemma rounds_ok_finish:
  assumes "rounds_ok t0 w" "flight_ok w" "w_pc w i = Probing t"
  shows "rounds_ok t0 (set_pc (w\<lparr>w_effects := es\<rparr>) i (Publishing (round_result cx t w)))"
proof -
  have others: "w_pc w j = Probing u \<Longrightarrow> j = i" "w_pc w j \<noteq> Publishing r" for j u r
    using alone [OF assms(2), of i j] assms(3) by auto
  from assms(1,3) obtain ts where "w_rounds w = t # ts" "t \<le> w_now w"
    by (fastforce simp: rounds_ok_def last_round_ok_def split: list.splits)
  with assms(1) others show ?thesis
    by (auto simp: rounds_ok_def last_round_ok_def set_pc_simps round_result_def)
qed

lemma rounds_ok_publish:
  assumes "rounds_ok t0 w" "flight_ok w" "w_pc w i = Publishing r"
  shows "rounds_ok t0 (set_pc (w\<lparr>w_ag := (w_ag w)\<lparr>ag_cached := Some r\<rparr>\<rparr>) i (Landed r))"
proof -
  have others: "w_pc w j \<noteq> Probing u" "w_pc w j = Publishing q \<Longrightarrow> j = i" for j u q
    using alone [OF assms(2), of i j] assms(3) by auto
  from assms(1,3) obtain t ts where "w_rounds w = t # ts" "t \<le> res_evaluated_at r"
    by (fastforce simp: rounds_ok_def last_round_ok_def split: list.splits)
  with assms(1) others show ?thesis
    by (auto simp: rounds_ok_def last_round_ok_def set_pc_simps)
qed

lemma step_rounds_ok:
  assumes "step cx w w'" "flight_ok w" "rounds_ok t0 w"
  shows "rounds_ok t0 w'"
  using assms(1)
proof (cases rule: step.cases)
  case (start i)
  with rounds_ok_start assms show ?thesis by simp
next
  case (finish i t)
  with rounds_ok_finish assms show ?thesis by simp
next
  case (publish i r)
  with rounds_ok_publish assms show ?thesis by simp
next
  case (land i r)
  with rounds_ok_land assms show ?thesis by simp
qed (use assms(3) in \<open>auto intro!: rounds_ok_set_pc rounds_ok_tick simp: rounds_ok_update\<close>)

lemma steps_ok:
  "steps cx w w' \<Longrightarrow> flight_ok w \<Longrightarrow> rounds_ok t0 w \<Longrightarrow>
     flight_ok w' \<and> rounds_ok t0 w' \<and> ag_opts (w_ag w') = ag_opts (w_ag w)"
  by (induction rule: steps.induct) (auto dest: step_flight_ok step_rounds_ok step_opts)

lemma reachable_ok:
  assumes "steps cx (initial opts t0) w"
  shows "flight_ok w" "rounds_ok t0 w" "ag_opts (w_ag w) = opts"
  using steps_ok [OF assms flight_ok_initial rounds_ok_initial]
  by (simp_all add: initial_def new_aggregator_def)

end
