(* ===== verification/Readiness_Spec.thy ===== *)
theory Readiness_Spec
  imports Health_Concurrent
begin

text \<open>
  What the aggregator promises about its check rounds, as an abstract machine without
  callers, cache entries and flights, and the proof that the steps of \<open>Health_Concurrent\<close>
  implement it.
\<close>

section \<open>Simulation\<close>

text \<open>
  A concrete machine refines an abstract one: under an invariant of its own, every step is
  an abstract step or none.
\<close>

locale refinement =
  fixes cstep :: "'c \<Rightarrow> 'c \<Rightarrow> bool" and astep :: "'a \<Rightarrow> 'a \<Rightarrow> bool"
    and abs :: "'c \<Rightarrow> 'a" and inv :: "'c \<Rightarrow> bool"
  assumes inv_step: "inv c \<Longrightarrow> cstep c c' \<Longrightarrow> inv c'"
    and simulate: "inv c \<Longrightarrow> cstep c c' \<Longrightarrow> abs c' = abs c \<or> astep (abs c) (abs c')"
begin

lemma runs: "cstep\<^sup>*\<^sup>* c c' \<Longrightarrow> inv c \<Longrightarrow> inv c' \<and> astep\<^sup>*\<^sup>* (abs c) (abs c')"
proof (induction rule: rtranclp_induct)
  case (step c' c'')
  then have "inv c'" "astep\<^sup>*\<^sup>* (abs c) (abs c')" by simp_all
  with inv_step [of c' c''] simulate [of c' c''] step.hyps(2) show ?case
    by (metis rtranclp.rtrancl_into_rtrancl)
qed simp

end

section \<open>The promise\<close>

text \<open>
  The time, whether the gate is closed, when the round under way began, when the last
  delivered round ended, and the number of rounds begun.
\<close>

record promise =
  pr_now :: instant
  pr_closed :: bool
  pr_round :: "instant option"
  pr_last :: "instant option"
  pr_count :: int

definition promise_start :: "instant \<Rightarrow> promise" where
  "promise_start t =
     \<lparr>pr_now = t, pr_closed = False, pr_round = None, pr_last = None, pr_count = 0\<rparr>"

text \<open>
  One round at a time, and none before the last one's end is a TTL ago.
\<close>

inductive promise_step :: "duration \<Rightarrow> promise \<Rightarrow> promise \<Rightarrow> bool" for ttl where
  pass: "0 \<le> d \<Longrightarrow> promise_step ttl p (p\<lparr>pr_now := pr_now p + d\<rparr>)"
| close: "promise_step ttl p (p\<lparr>pr_closed := True\<rparr>)"
| begin_round: "pr_round p = None \<Longrightarrow> (case pr_last p of None \<Rightarrow> True | Some u \<Rightarrow> u + ttl \<le> pr_now p) \<Longrightarrow>
    promise_step ttl p (p\<lparr>pr_round := Some (pr_now p), pr_count := pr_count p + 1\<rparr>)"
| deliver: "pr_round p = Some t \<Longrightarrow> t \<le> u \<Longrightarrow> u \<le> pr_now p \<Longrightarrow>
    promise_step ttl p (p\<lparr>pr_round := None, pr_last := Some u\<rparr>)"

inductive_cases promise_stepE: "promise_step ttl p p'"

text \<open>The promise bounds the load.\<close>

definition promise_ok :: "duration \<Rightarrow> instant \<Rightarrow> promise \<Rightarrow> bool" where
  "promise_ok ttl t0 p \<longleftrightarrow> t0 \<le> pr_now p \<and>
     (case pr_round p of
        Some t \<Rightarrow> t \<le> pr_now p \<and> (pr_count p - 1) * ttl \<le> t - t0
      | None \<Rightarrow> (case pr_last p of
            None \<Rightarrow> pr_count p = 0
          | Some u \<Rightarrow> u \<le> pr_now p \<and> (pr_count p - 1) * ttl \<le> u - t0))"

lemma promise_ok_start: "promise_ok ttl t0 (promise_start t0)"
  by (simp add: promise_ok_def promise_start_def)

lemma promise_ok_step: "promise_step ttl p p' \<Longrightarrow> promise_ok ttl t0 p \<Longrightarrow> promise_ok ttl t0 p'"
  by (erule promise_stepE) (auto simp: promise_ok_def algebra_simps split: option.splits)

lemma promise_ok_runs: "(promise_step ttl)\<^sup>*\<^sup>* (promise_start t0) p \<Longrightarrow> promise_ok ttl t0 p"
  by (induction rule: rtranclp_induct) (auto simp: promise_ok_start intro: promise_ok_step)

lemma promise_load:
  assumes "(promise_step ttl)\<^sup>*\<^sup>* (promise_start t0) p" "0 < ttl"
  shows "pr_count p \<le> 1 + (pr_now p - t0) div ttl"
proof -
  from promise_ok_runs [OF assms(1)] have "(pr_count p - 1) * ttl \<le> pr_now p - t0"
    using assms(2) by (auto simp: promise_ok_def split: option.splits)
  then have "pr_count p - 1 \<le> (pr_now p - t0) div ttl"
    using zdiv_mono1 [of "(pr_count p - 1) * ttl" "pr_now p - t0" ttl] assms(2) by simp
  then show ?thesis by simp
qed

section \<open>The aggregator keeps it\<close>

fun pc_round :: "instant list \<Rightarrow> pc \<Rightarrow> instant option" where
  "pc_round ts (Probing t) = Some t"
| "pc_round ts (Publishing r) = Some (hd ts)"
| "pc_round ts _ = None"

definition round_of :: "world \<Rightarrow> instant option" where
  "round_of w = (case w_flight w of None \<Rightarrow> None | Some i \<Rightarrow> pc_round (w_rounds w) (w_pc w i))"

lemma pc_round_None: "\<not> in_round p \<Longrightarrow> pc_round ts p = None"
  by (cases p) simp_all

definition promise_of :: "world \<Rightarrow> promise" where
  "promise_of w =
     \<lparr>pr_now = w_now w, pr_closed = ag_shutting_down (w_ag w), pr_round = round_of w,
      pr_last = map_option res_evaluated_at (ag_cached (w_ag w)),
      pr_count = check_rounds (w_ag w)\<rparr>"

definition promise_inv :: "duration \<Rightarrow> instant \<Rightarrow> world \<Rightarrow> bool" where
  "promise_inv ttl t0 w \<longleftrightarrow> flight_ok w \<and> rounds_ok t0 w \<and> ao_cache_ttl (ag_opts (w_ag w)) = ttl"

lemma round_of_flight:
  assumes "flight_ok w" "w_pc w i = Probing t"
  shows "round_of w = Some t"
proof -
  have "w_flight w = Some i" using assms by (metis flight_ok_def in_flight.simps(2))
  with assms(2) show ?thesis by (simp add: round_of_def)
qed

lemma round_of_publishing:
  assumes "flight_ok w" "w_pc w i = Publishing r"
  shows "round_of w = Some (hd (w_rounds w))"
proof -
  have "w_flight w = Some i" using assms by (metis flight_ok_def in_flight.simps(3))
  with assms(2) show ?thesis by (simp add: round_of_def)
qed

lemma flight_leading: "flight_ok w \<Longrightarrow> in_flight (w_pc w i) \<Longrightarrow> w_flight w = Some i"
  by (simp add: flight_ok_def)

lemma round_of_set_pc:
  assumes "\<not> in_round p" "\<not> in_round (w_pc w i)"
  shows "round_of (set_pc w i p) = round_of w"
  using assms by (auto simp: round_of_def set_pc_simps pc_round_None split: option.splits)

lemma promise_of_set_pc:
  "\<not> in_round p \<Longrightarrow> \<not> in_round (w_pc w i) \<Longrightarrow> promise_of (set_pc w i p) = promise_of w"
  by (simp add: promise_of_def round_of_set_pc set_pc_simps)

lemma simulate_start:
  assumes "promise_inv ttl t0 w" "w_pc w i = Leading" "fresh (w_ag w) (w_now w) = None"
  shows "promise_step ttl (promise_of w) (promise_of (set_pc
    (w\<lparr>w_ag := (w_ag w)\<lparr>ag_check_rounds := ag_check_rounds (w_ag w) + 1\<rparr>,
       w_rounds := w_now w # w_rounds w\<rparr>) i (Probing (w_now w))))"
proof -
  have fl: "w_flight w = Some i"
    using assms(1,2) by (auto simp: promise_inv_def intro: flight_leading)
  with assms(2) have "pr_round (promise_of w) = None" by (simp add: promise_of_def round_of_def)
  moreover have "case pr_last (promise_of w) of None \<Rightarrow> True | Some u \<Rightarrow> u + ttl \<le> pr_now (promise_of w)"
    using assms(1,3) by (auto simp: promise_of_def promise_inv_def fresh_def split: option.splits if_splits)
  ultimately have "promise_step ttl (promise_of w)
      ((promise_of w)\<lparr>pr_round := Some (pr_now (promise_of w)), pr_count := pr_count (promise_of w) + 1\<rparr>)"
    by (rule promise_step.begin_round)
  with fl show ?thesis by (simp add: promise_of_def round_of_def set_pc_simps check_rounds_def)
qed

lemma simulate_finish:
  assumes "promise_inv ttl t0 w" "w_pc w i = Probing t"
  shows "promise_of (set_pc (w\<lparr>w_effects := es\<rparr>) i (Publishing r)) = promise_of w"
proof -
  have ok: "flight_ok w" "rounds_ok t0 w" using assms(1) by (simp_all add: promise_inv_def)
  have "w_flight w = Some i" using ok(1) assms(2) by (auto intro: flight_leading)
  moreover have "hd (w_rounds w) = t"
    using ok(2) assms(2) by (fastforce simp: rounds_ok_def last_round_ok_def split: list.splits)
  ultimately show ?thesis using round_of_flight [OF ok(1) assms(2)]
    by (simp add: promise_of_def round_of_def set_pc_simps)
qed

lemma simulate_publish:
  assumes "promise_inv ttl t0 w" "w_pc w i = Publishing r"
  shows "promise_step ttl (promise_of w)
    (promise_of (set_pc (w\<lparr>w_ag := (w_ag w)\<lparr>ag_cached := Some r\<rparr>\<rparr>) i (Landed r)))"
proof -
  have ok: "flight_ok w" "rounds_ok t0 w" using assms(1) by (simp_all add: promise_inv_def)
  have "hd (w_rounds w) \<le> res_evaluated_at r" "res_evaluated_at r \<le> w_now w"
    using ok(2) assms(2) by (auto simp: rounds_ok_def last_round_ok_def split: list.splits)
  then have "promise_step ttl (promise_of w)
      ((promise_of w)\<lparr>pr_round := None, pr_last := Some (res_evaluated_at r)\<rparr>)"
    using round_of_publishing [OF ok(1) assms(2)]
    by (intro promise_step.deliver) (auto simp: promise_of_def)
  moreover have "w_flight w = Some i" using ok(1) assms(2) by (auto intro: flight_leading)
  ultimately show ?thesis
    by (simp add: promise_of_def round_of_def set_pc_simps check_rounds_def)
qed

lemma simulate_land:
  assumes "flight_ok w" "w_pc w i = Landed r"
  shows "promise_of (w\<lparr>w_flight := None, w_pc := pcs\<rparr>) = promise_of w"
proof -
  have "w_flight w = Some i" using assms by (auto intro: flight_leading)
  with assms(2) show ?thesis by (simp add: promise_of_def round_of_def)
qed

lemma simulate_lead:
  assumes "w_flight w = None" "w_pc w i = Missed"
  shows "promise_of (set_pc (w\<lparr>w_flight := Some i\<rparr>) i Leading) = promise_of w"
  using assms by (simp add: promise_of_def round_of_def set_pc_simps)

lemma round_of_same:
  "w_flight w' = w_flight w \<Longrightarrow> w_pc w' = w_pc w \<Longrightarrow> w_rounds w' = w_rounds w \<Longrightarrow>
     round_of w' = round_of w"
  unfolding round_of_def by (simp only:)

lemma simulate_time_and_gate:
  "promise_of (w\<lparr>w_now := n\<rparr>) = (promise_of w)\<lparr>pr_now := n\<rparr>"
  "promise_of (w\<lparr>w_ag := begin_shutdown (w_ag w)\<rparr>) = (promise_of w)\<lparr>pr_closed := True\<rparr>"
  "pr_now (promise_of w) = w_now w"
proof -
  have "round_of (w\<lparr>w_now := n\<rparr>) = round_of w"
    "round_of (w\<lparr>w_ag := begin_shutdown (w_ag w)\<rparr>) = round_of w"
    by (rule round_of_same; simp)+
  then show "promise_of (w\<lparr>w_now := n\<rparr>) = (promise_of w)\<lparr>pr_now := n\<rparr>"
    "promise_of (w\<lparr>w_ag := begin_shutdown (w_ag w)\<rparr>) = (promise_of w)\<lparr>pr_closed := True\<rparr>"
    by (simp_all add: promise_of_def begin_shutdown_def check_rounds_def)
qed (simp add: promise_of_def)

interpretation rounds: refinement "step cx" "promise_step ttl" promise_of "promise_inv ttl t0"
proof
  fix c c'
  assume inv: "promise_inv ttl t0 c" and st: "step cx c c'"
  from inv st show "promise_inv ttl t0 c'"
    using step_flight_ok step_rounds_ok step_opts by (simp add: promise_inv_def)
  show "promise_of c' = promise_of c \<or> promise_step ttl (promise_of c) (promise_of c')"
    using st
  proof (cases rule: step.cases)
    case (tick d)
    then show ?thesis using promise_step.pass [of d ttl "promise_of c"]
      by (simp add: simulate_time_and_gate)
  next
    case begin_down
    then show ?thesis using promise_step.close [of ttl "promise_of c"]
      by (simp add: simulate_time_and_gate)
  next
    case (start i)
    with simulate_start [OF inv] show ?thesis by blast
  next
    case (finish i t)
    with simulate_finish [OF inv] show ?thesis by blast
  next
    case (publish i r)
    with simulate_publish [OF inv] show ?thesis by blast
  next
    case (land i r)
    with simulate_land inv show ?thesis by (simp add: promise_inv_def)
  next
    case (lead i)
    with simulate_lead show ?thesis by blast
  qed (simp_all add: promise_of_set_pc)
qed

lemma steps_rtranclp: "steps cx w w' \<Longrightarrow> (step cx)\<^sup>*\<^sup>* w w'"
  by (induction rule: steps.induct) auto

lemma keeps_promise:
  assumes "steps cx (initial opts t0) w"
  shows "(promise_step (ao_cache_ttl opts))\<^sup>*\<^sup>* (promise_start t0) (promise_of w)"
proof -
  have "promise_inv (ao_cache_ttl opts) t0 (initial opts t0)"
    using flight_ok_initial rounds_ok_initial by (simp add: promise_inv_def initial_def new_aggregator_def)
  moreover have "promise_of (initial opts t0) = promise_start t0"
    by (simp add: promise_of_def promise_start_def initial_def new_aggregator_def round_of_def check_rounds_def)
  ultimately show ?thesis
    using rounds.runs [OF steps_rtranclp [OF assms]] by metis
qed

end
