(* ===== verification/Concurrent_Properties.thy ===== *)
theory Concurrent_Properties
  imports Readiness_Spec
begin

text \<open>
  The properties of readiness under concurrency: at most one round at a time, a bound on the
  rounds, no ready answer to a call that comes after the shutdown has begun, no stranded
  caller, and the agreement with the one-call-at-a-time model.
\<close>

section \<open>A short run\<close>

text \<open>
  One caller finds the cache empty and takes the lead, a second one joins it, and then the
  shutdown begins: the inputs of the witnesses.
\<close>

definition run_options :: aggregator_options where
  "run_options =
     \<lparr>ao_service = ''api'', ao_version = ''v1'',
      ao_checkers = [\<lparr>ck_name = ''redis'', ck_check = (\<lambda>_ _. (None, 5))\<rparr>],
      ao_timeout = 100, ao_cache_ttl = 50, ao_metrics = True\<rparr>"

definition run_context :: req_context where
  "run_context = \<lparr>cx_log = background, cx_deadline = None, cx_canceled = None\<rparr>"

definition led_world :: world where
  "led_world = set_pc ((set_pc (set_pc (initial run_options 0) 0 Checked) 0 Missed)\<lparr>w_flight := Some 0\<rparr>) 0 Leading"

definition joined_world :: world where
  "joined_world = set_pc (set_pc (set_pc led_world 1 Checked) 1 Missed) 1 Waiting"

definition closing_world :: world where
  "closing_world = joined_world\<lparr>w_ag := begin_shutdown (w_ag joined_world)\<rparr>"

lemma led_reachable: "steps (\<lambda>_. run_context) (initial run_options 0) led_world"
  unfolding led_world_def
  by (rule steps.more [OF steps.more [OF steps.more [OF steps.refl step.enter] step.miss] step.lead])
    (simp_all add: set_pc_simps initial_def new_aggregator_def fresh_def)

lemma joined_reachable: "steps (\<lambda>_. run_context) (initial run_options 0) joined_world"
  unfolding joined_world_def
  by (rule steps.more [OF steps.more [OF steps.more [OF led_reachable step.enter] step.miss] step.join])
    (simp_all add: set_pc_simps initial_def new_aggregator_def fresh_def led_world_def)

lemma joined_pcs:
  "w_pc joined_world 0 = Leading" "w_pc joined_world 1 = Waiting" "w_now joined_world = 0"
  by (simp_all add: joined_world_def led_world_def set_pc_simps initial_def)

section \<open>Rounds\<close>



text \<open>
  C16: The aggregator keeps its promise: whatever the callers do, what an observer of the rounds
  sees, the gate, the round under way, the end of the last one and the number of rounds, is
  a run of the abstract machine that allows one round at a time and none within a TTL of the
  last one's end.
\<close>

theorem aggregator_keeps_promise:
  assumes "steps cx (initial opts t0) w"
  shows "(promise_step (ao_cache_ttl opts))\<^sup>*\<^sup>* (promise_start t0) (promise_of w)"
  by (rule keeps_promise [OF assms])

theorem aggregator_keeps_promise_witness:
  "(promise_step 50)\<^sup>*\<^sup>* (promise_start 0) (promise_of joined_world)"
  using aggregator_keeps_promise [OF joined_reachable] by (simp add: run_options_def)

text \<open>
  Under any interleaving of any number of callers the dependencies are probed at most
  once plus once per elapsed cache TTL.
\<close>

theorem concurrent_load_bound:
  assumes "steps cx (initial opts t0) w" and "0 < ao_cache_ttl opts"
  shows "check_rounds (w_ag w) \<le> 1 + (w_now w - t0) div ao_cache_ttl opts"
  using promise_load [OF keeps_promise [OF assms(1)] assms(2)] by (simp add: promise_of_def)

theorem concurrent_load_bound_witness: "check_rounds (w_ag joined_world) \<le> 1"
  using concurrent_load_bound [OF joined_reachable] joined_pcs by (simp add: run_options_def)

section \<open>Shutdown\<close>

text \<open>
  Where a caller may be when the shutdown has begun and still cannot answer ready: anywhere
  but between reading the flag and reading the cache.
\<close>

fun gated :: "pc \<Rightarrow> bool" where
  "gated Checked = False"
| "gated (Answered r) = (res_status r = status_not_ready \<and> res_shutting_down r)"
| "gated _ = True"

lemma step_shutting_down:
  assumes "step cx w w'" "ag_shutting_down (w_ag w)"
  shows "ag_shutting_down (w_ag w')"
  using assms(1) by cases (simp_all add: set_pc_simps begin_shutdown_def assms(2))

lemma gated_set_pc: "gated (w_pc w i) \<Longrightarrow> (j = i \<Longrightarrow> gated p) \<Longrightarrow> gated (w_pc (set_pc w j p) i)"
  by (simp add: set_pc_simps)

lemma step_gated:
  assumes "step cx w w'" "ag_shutting_down (w_ag w)" "gated (w_pc w i)"
  shows "gated (w_pc w' i)"
  using assms(1)
proof cases
  case (land j r)
  with assms(3) show ?thesis by simp
next
  case (hit j r)
  with assms(3) have "i \<noteq> j" by (cases "i = j") simp_all
  with hit(1) assms(3) show ?thesis by (simp add: set_pc_simps)
qed (use assms(2,3) in \<open>simp_all add: set_pc_simps shutdown_result_def\<close>)

lemma steps_gated:
  "steps cx w w' \<Longrightarrow> ag_shutting_down (w_ag w) \<Longrightarrow> gated (w_pc w i) \<Longrightarrow>
     ag_shutting_down (w_ag w') \<and> gated (w_pc w' i)"
  by (induction rule: steps.induct) (auto intro: step_shutting_down step_gated)

text \<open>
  Once the shutdown has begun, a call answers not ready and shutting down whenever it
  arrives later, and also when it was already waiting for a round, running one, or about to
  return its result.
\<close>

theorem shutdown_gates_calls:
  assumes "steps cx w w'" and "ag_shutting_down (w_ag w)" and "w_pc w' i = Answered r"
    and "w_pc w i \<noteq> Checked" and "\<And>q. w_pc w i \<noteq> Answered q"
  shows "res_status r = status_not_ready \<and> res_shutting_down r"
proof -
  have "gated (w_pc w i)" using assms(4,5) by (cases "w_pc w i") auto
  from steps_gated [OF assms(1,2) this] assms(3) show ?thesis by simp
qed

theorem shutdown_gates_calls_witness:
  "res_shutting_down (shutdown_result (w_ag closing_world) 0)"
proof -
  let ?w = "set_pc closing_world 2 (Answered (shutdown_result (w_ag closing_world) (w_now closing_world)))"
  have down: "ag_shutting_down (w_ag closing_world)" by (simp add: closing_world_def begin_shutdown_def)
  have idle: "w_pc closing_world 2 = Idle"
    by (simp add: closing_world_def joined_world_def led_world_def set_pc_simps initial_def)
  have "steps (\<lambda>_. run_context) closing_world ?w"
    by (rule steps_one, rule step.refuse) (rule idle, rule down)
  from shutdown_gates_calls [OF this down, of 2 "shutdown_result (w_ag closing_world) (w_now closing_world)"]
  show ?thesis using idle joined_pcs by (simp add: set_pc_simps closing_world_def)
qed

section \<open>Progress\<close>

lemma set_pc_other: "j \<noteq> i \<Longrightarrow> w_pc (set_pc w i p) j = w_pc w j"
  by (simp add: set_pc_simps)

text \<open>A world in which \<open>i\<close> can finish its flight, handing its result to all who wait.\<close>

definition can_land :: "(nat \<Rightarrow> req_context) \<Rightarrow> world \<Rightarrow> nat \<Rightarrow> bool" where
  "can_land cx w i \<longleftrightarrow> (\<exists>w' r. quiet cx w w' \<and> w_pc w' i = Returned r \<and>
     (\<forall>j. w_pc w j = Waiting \<longrightarrow> w_pc w' j = Returned r))"

lemma can_land_step:
  assumes "step cx w w'" "calm w w'" "can_land cx w' i" "\<And>j. w_pc w j = Waiting \<Longrightarrow> w_pc w' j = Waiting"
  shows "can_land cx w i"
  using assms(3,4) quiet_step [OF assms(1,2)] unfolding can_land_def by blast

lemma can_land_Landed: "w_pc w i = Landed r \<Longrightarrow> can_land cx w i"
  unfolding can_land_def by (intro exI conjI, rule quiet_one, rule step.land) (auto intro: calm_land)

lemma can_land_set_pc:
  assumes "step cx w w'" "calm w w'" "w_pc w' = (w_pc w)(i := p)" "can_land cx w' i" "w_pc w i \<noteq> Waiting"
  shows "can_land cx w i"
  using assms(3,5) by (intro can_land_step [OF assms(1,2,4)]) auto

lemma can_land_Publishing:
  assumes "w_pc w i = Publishing r"
  shows "can_land cx w i"
  by (rule can_land_set_pc [OF step.publish [OF assms]])
    (use assms in \<open>auto intro: can_land_Landed [of _ _ r] simp: set_pc_def calm_def\<close>)

lemma can_land_Probing:
  assumes "w_pc w i = Probing t"
  shows "can_land cx w i"
proof -
  let ?d = "max 0 (round_end (cx i) (ag_opts (w_ag w)) t - w_now w)"
  let ?w = "w\<lparr>w_now := w_now w + ?d\<rparr>"
  let ?w' = "set_pc (?w\<lparr>w_effects := w_effects ?w @ map (Pair (w_now ?w)) (round_effects (cx i) t ?w)\<rparr>) i
    (Publishing (round_result (cx i) t ?w))"
  have fin: "step cx ?w ?w'" by (rule step.finish) (use assms in auto)
  have "can_land cx ?w' i" by (rule can_land_Publishing) (simp add: set_pc_simps)
  then have "can_land cx ?w i"
    by (rule can_land_set_pc [OF fin, rotated 2]) (use assms in \<open>simp_all add: set_pc_def calm_def\<close>)
  moreover have "step cx w ?w" by (rule step.tick) simp
  ultimately show ?thesis using can_land_step [of cx w ?w] by simp
qed

lemma can_land_Leading:
  assumes "w_pc w i = Leading"
  shows "can_land cx w i"
proof (cases "fresh (w_ag w) (w_now w)")
  case (Some r)
  with assms have st: "step cx w (set_pc w i (Landed r))" by (rule step.rehit)
  have "can_land cx (set_pc w i (Landed r)) i"
    by (rule can_land_Landed) (simp add: set_pc_simps)
  from can_land_set_pc [OF st _ _ this] assms show ?thesis by (simp add: set_pc_def calm_def)
next
  case None
  let ?w = "set_pc (w\<lparr>w_ag := (w_ag w)\<lparr>ag_check_rounds := ag_check_rounds (w_ag w) + 1\<rparr>,
      w_rounds := w_now w # w_rounds w\<rparr>) i (Probing (w_now w))"
  from assms None have st: "step cx w ?w" by (rule step.start)
  have "can_land cx ?w i" by (rule can_land_Probing) (simp add: set_pc_simps)
  from can_land_set_pc [OF st _ _ this] assms show ?thesis by (simp add: set_pc_def calm_def)
qed

lemma can_land_in_flight: "in_flight (w_pc w i) \<Longrightarrow> can_land cx w i"
  by (cases "w_pc w i")
    (auto intro: can_land_Leading can_land_Probing can_land_Publishing can_land_Landed)

definition can_answer :: "(nat \<Rightarrow> req_context) \<Rightarrow> world \<Rightarrow> nat \<Rightarrow> bool" where
  "can_answer cx w i \<longleftrightarrow> (\<exists>w' r. quiet cx w w' \<and> w_pc w' i = Answered r)"

lemma can_answer_quiet: "quiet cx w w' \<Longrightarrow> can_answer cx w' i \<Longrightarrow> can_answer cx w i"
  unfolding can_answer_def using quiet_trans by blast

lemma can_answer_now:
  assumes "step cx w (set_pc w i (Answered r))" "w_pc w i \<noteq> Idle"
  shows "can_answer cx w i"
  unfolding can_answer_def using quiet_one [OF assms(1)] assms(2) set_pc_simps(6) by fastforce

lemma can_answer_Returned:
  assumes "w_pc w i = Returned r"
  shows "can_answer cx w i"
proof (cases "ag_shutting_down (w_ag w)")
  case True
  from step.recheck_down [OF assms True, of cx] assms show ?thesis by (auto intro: can_answer_now)
next
  case False
  from step.recheck [OF assms False, of cx] assms show ?thesis by (auto intro: can_answer_now)
qed

lemma can_answer_in_flight: "in_flight (w_pc w i) \<Longrightarrow> can_answer cx w i"
  using can_land_in_flight [of w i cx] can_answer_Returned can_answer_quiet
  unfolding can_land_def by blast

lemma can_answer_Waiting:
  assumes "flight_ok w" "w_pc w i = Waiting"
  shows "can_answer cx w i"
proof -
  from assms obtain j where "w_flight w = Some j" by (auto simp: flight_ok_def)
  with assms(1) have "in_flight (w_pc w j)" by (simp add: flight_ok_def)
  from can_land_in_flight [OF this, of cx] assms(2) show ?thesis
    unfolding can_land_def using can_answer_Returned can_answer_quiet by blast
qed

lemma can_answer_Missed:
  assumes "flight_ok w" "w_pc w i = Missed"
  shows "can_answer cx w i"
proof (cases "w_flight w")
  case None
  let ?w = "set_pc (w\<lparr>w_flight := Some i\<rparr>) i Leading"
  have "can_answer cx ?w i" by (rule can_answer_in_flight) (simp add: set_pc_simps)
  moreover have "quiet cx w ?w"
    by (rule quiet_one [OF step.lead]) (use assms(2) None in simp_all)
  ultimately show ?thesis by (rule can_answer_quiet [rotated])
next
  case (Some j)
  let ?w = "set_pc w i Waiting"
  have st: "step cx w ?w" using step.join assms(2) Some by blast
  have "can_answer cx ?w i"
    by (rule can_answer_Waiting [OF step_flight_ok [OF st assms(1)]]) (simp add: set_pc_simps)
  moreover have "quiet cx w ?w" by (rule quiet_one [OF st]) (simp add: assms(2))
  ultimately show ?thesis by (rule can_answer_quiet [rotated])
qed

lemma can_answer_Checked:
  assumes "flight_ok w" "w_pc w i = Checked"
  shows "can_answer cx w i"
proof (cases "fresh (w_ag w) (w_now w)")
  case (Some r)
  from step.hit [OF assms(2) Some, of cx] assms(2) show ?thesis by (auto intro: can_answer_now)
next
  case None
  have st: "step cx w (set_pc w i Missed)" using assms(2) None by (rule step.miss)
  have "can_answer cx (set_pc w i Missed) i"
    by (rule can_answer_Missed [OF step_flight_ok [OF st assms(1)]]) (simp add: set_pc_simps)
  moreover have "quiet cx w (set_pc w i Missed)" by (rule quiet_one [OF st]) (simp add: assms(2))
  ultimately show ?thesis by (rule can_answer_quiet [rotated])
qed

lemma can_answer_called:
  assumes "flight_ok w" "w_pc w i \<noteq> Idle"
  shows "can_answer cx w i"
proof (cases "w_pc w i")
  case (Answered r)
  then show ?thesis unfolding can_answer_def using quiet_refl by blast
qed (use assms in \<open>auto intro: can_answer_Missed can_answer_Waiting can_answer_Returned
    can_answer_in_flight can_answer_Checked\<close>)

text \<open>
  No caller is stranded: in every reachable situation, every caller that is inside
  \<open>Evaluate\<close> can still get its answer, those who wait for another's round included.
\<close>

theorem no_caller_stranded:
  assumes "steps cx (initial opts t0) w" and "w_pc w i \<noteq> Idle"
  shows "\<exists>w' r. steps cx w w' \<and> w_pc w' i = Answered r"
  using can_answer_called [OF reachable_ok(1) [OF assms(1)] assms(2), of cx] quiet_steps
  unfolding can_answer_def by blast

theorem no_caller_stranded_witness:
  "\<exists>w' r. steps (\<lambda>_. run_context) joined_world w' \<and> w_pc w' 1 = Answered r"
  using no_caller_stranded [OF joined_reachable, of 1] joined_pcs by simp

section \<open>Agreement with one call at a time\<close>

text \<open>
  \<open>agrees\<close>: from \<open>w\<close>, where caller \<open>i\<close> is inside, quiet steps lead to a situation at \<open>t\<close> in
  which \<open>i\<close> has answered \<open>r\<close>, the aggregator is \<open>a\<close>, no flight is under way, and the effects
  \<open>es\<close> have been added at \<open>t\<close>.
\<close>

definition agrees ::
  "(nat \<Rightarrow> req_context) \<Rightarrow> world \<Rightarrow> nat \<Rightarrow> instant \<Rightarrow> health_result \<times> effect list \<times> aggregator \<Rightarrow> bool" where
  "agrees cx w i t res \<longleftrightarrow>
     (\<exists>w'. quiet cx w w' \<and> w_pc w' i = Answered (fst res) \<and> w_ag w' = snd (snd res) \<and>
       w_now w' = t \<and> w_flight w' = None \<and>
       w_effects w' = w_effects w @ map (Pair t) (fst (snd res)))"

lemma agrees_step:
  assumes "step cx w w'" "calm w w'" "agrees cx w' i t (r, es', a)" "w_effects w' = w_effects w @ map (Pair t) es"
  shows "agrees cx w i t (r, es @ es', a)"
  using assms(3,4) quiet_step [OF assms(1,2)] by (fastforce simp: agrees_def)

lemma agrees_silent:
  "step cx w w' \<Longrightarrow> agrees cx w' i t res \<Longrightarrow> calm w w' \<Longrightarrow> w_effects w' = w_effects w \<Longrightarrow> agrees cx w i t res"
  using agrees_step [of cx w w' i t _ _ _ "[]"] by (cases res) auto

lemma agrees_answered:
  "w_pc w i = Answered r \<Longrightarrow> w_ag w = a \<Longrightarrow> w_flight w = None \<Longrightarrow> agrees cx w i (w_now w) (r, [], a)"
  unfolding agrees_def by (rule exI [of _ w]) simp

lemma agrees_Landed:
  assumes "w_pc w i = Landed r" "\<not> ag_shutting_down (w_ag w)"
  shows "agrees cx w i (w_now w) (r, [], w_ag w)"
proof -
  let ?w1 = "w\<lparr>w_flight := None,
    w_pc := (\<lambda>j. if j = i \<or> w_pc w j = Waiting then Returned r else w_pc w j)\<rparr>"
  let ?w2 = "set_pc ?w1 i (Answered r)"
  have "step cx ?w1 ?w2" by (rule step.recheck) (use assms in simp_all)
  moreover have "agrees cx ?w2 i (w_now ?w2) (r, [], w_ag w)"
    by (rule agrees_answered) (simp_all add: set_pc_simps)
  ultimately have "agrees cx ?w1 i (w_now ?w2) (r, [], w_ag w)"
    by (rule agrees_silent) (simp_all add: set_pc_simps)
  with step.land [OF assms(1)] have "agrees cx w i (w_now ?w2) (r, [], w_ag w)"
    by (rule agrees_silent) (simp_all add: calm_land [OF assms(1)])
  then show ?thesis by (simp add: set_pc_simps)
qed

lemma agrees_Publishing:
  assumes "w_pc w i = Publishing r" "\<not> ag_shutting_down (w_ag w)"
  shows "agrees cx w i (w_now w) (r, [], (w_ag w)\<lparr>ag_cached := Some r\<rparr>)"
proof -
  let ?w1 = "set_pc (w\<lparr>w_ag := (w_ag w)\<lparr>ag_cached := Some r\<rparr>\<rparr>) i (Landed r)"
  have "agrees cx ?w1 i (w_now ?w1) (r, [], w_ag ?w1)"
    by (rule agrees_Landed) (use assms(2) in \<open>simp_all add: set_pc_simps\<close>)
  with step.publish [OF assms(1)] have "agrees cx w i (w_now ?w1) (r, [], w_ag ?w1)"
    by (rule agrees_silent) (simp_all add: set_pc_simps assms(1))
  then show ?thesis by (simp add: set_pc_simps)
qed

lemma evaluate_now_counter:
  "fst (evaluate_now ctx t (a\<lparr>ag_check_rounds := n\<rparr>)) = fst (evaluate_now ctx t a)"
  "fst (snd (evaluate_now ctx t (a\<lparr>ag_check_rounds := n\<rparr>))) = fst (snd (evaluate_now ctx t a))"
  by (simp_all add: evaluate_now_def Let_def split_beta)

lemma agrees_Probing:
  assumes "w_pc w i = Probing (w_now w)" "\<not> ag_shutting_down (w_ag w)"
  shows "agrees cx w i (round_end (cx i) (ag_opts (w_ag w)) (w_now w))
    (fst (evaluate_now (cx i) (w_now w) (w_ag w)),
     fst (snd (evaluate_now (cx i) (w_now w) (w_ag w))),
     (w_ag w)\<lparr>ag_cached := Some (fst (evaluate_now (cx i) (w_now w) (w_ag w)))\<rparr>)"
    (is "agrees cx w i ?u (?r, ?es, _)")
proof -
  let ?t = "w_now w"
  let ?w1 = "w\<lparr>w_now := ?t + (?u - ?t)\<rparr>"
  have r: "round_result (cx i) ?t ?w1 = ?r"
    by (simp add: round_result_def evaluate_now_simps(1))
  let ?w2 = "set_pc (?w1\<lparr>w_effects := w_effects ?w1 @ map (Pair (w_now ?w1)) (round_effects (cx i) ?t ?w1)\<rparr>) i
    (Publishing (round_result (cx i) ?t ?w1))"
  have "step cx ?w1 ?w2" by (rule step.finish) (use assms(1) in simp_all)
  moreover have "calm ?w1 ?w2" by (simp add: assms(1))
  moreover have "agrees cx ?w2 i (w_now ?w2) (?r, [], (w_ag ?w2)\<lparr>ag_cached := Some ?r\<rparr>)"
    unfolding r by (rule agrees_Publishing) (use assms(2) in \<open>simp_all add: set_pc_simps\<close>)
  ultimately have "agrees cx ?w1 i (w_now ?w2) (?r, ?es @ [], (w_ag ?w2)\<lparr>ag_cached := Some ?r\<rparr>)"
    by (rule agrees_step) (simp add: set_pc_simps round_effects_def)
  then have "agrees cx ?w1 i ?u (?r, ?es, (w_ag w)\<lparr>ag_cached := Some ?r\<rparr>)"
    by (simp add: set_pc_simps)
  with step.tick [of "?u - ?t" cx w] show ?thesis
    using round_end_ge [of ?t "cx i" "ag_opts (w_ag w)"] by (auto intro: agrees_silent [of cx w ?w1])
qed

lemma agrees_Leading:
  assumes "w_pc w i = Leading" "\<not> ag_shutting_down (w_ag w)" "fresh (w_ag w) (w_now w) = None"
  shows "agrees cx w i (answer_time (cx i) (w_now w) (w_ag w)) (evaluate (cx i) (w_now w) (w_ag w))"
proof -
  let ?a = "(w_ag w)\<lparr>ag_check_rounds := ag_check_rounds (w_ag w) + 1\<rparr>"
  let ?w1 = "set_pc (w\<lparr>w_ag := ?a, w_rounds := w_now w # w_rounds w\<rparr>) i (Probing (w_now w))"
  have "agrees cx ?w1 i (round_end (cx i) (ag_opts (w_ag ?w1)) (w_now ?w1))
    (fst (evaluate_now (cx i) (w_now ?w1) (w_ag ?w1)),
     fst (snd (evaluate_now (cx i) (w_now ?w1) (w_ag ?w1))),
     (w_ag ?w1)\<lparr>ag_cached := Some (fst (evaluate_now (cx i) (w_now ?w1) (w_ag ?w1)))\<rparr>)"
    by (rule agrees_Probing) (use assms(2) in \<open>simp_all add: set_pc_simps\<close>)
  moreover have "evaluate (cx i) (w_now w) (w_ag w) =
      (fst (evaluate_now (cx i) (w_now w) (w_ag w)), fst (snd (evaluate_now (cx i) (w_now w) (w_ag w))),
       ?a\<lparr>ag_cached := Some (fst (evaluate_now (cx i) (w_now w) (w_ag w)))\<rparr>)"
    using evaluate_stale [OF assms(2,3), of "cx i"] by (simp add: prod_eq_iff del: evaluate_now_simps)
  moreover have "answer_time (cx i) (w_now w) (w_ag w) = round_end (cx i) (ag_opts (w_ag w)) (w_now w)"
    using assms(2,3) by (simp add: answer_time_def)
  ultimately have "agrees cx ?w1 i (answer_time (cx i) (w_now w) (w_ag w)) (evaluate (cx i) (w_now w) (w_ag w))"
    by (simp add: set_pc_simps evaluate_now_counter del: evaluate_now_simps)
  then show ?thesis
    by (rule agrees_silent [OF step.start [OF assms(1,3)]]) (simp_all add: set_pc_simps assms(1))
qed

lemma agrees_Checked:
  assumes "w_pc w i = Checked" "\<not> ag_shutting_down (w_ag w)" "w_flight w = None"
  shows "agrees cx w i (answer_time (cx i) (w_now w) (w_ag w)) (evaluate (cx i) (w_now w) (w_ag w))"
proof (cases "fresh (w_ag w) (w_now w)")
  case (Some r)
  let ?w1 = "set_pc w i (Answered r)"
  have "agrees cx ?w1 i (w_now ?w1) (r, [], w_ag w)"
    by (rule agrees_answered) (simp_all add: set_pc_simps assms(3))
  then have "agrees cx w i (w_now ?w1) (r, [], w_ag w)"
    by (rule agrees_silent [OF step.hit [OF assms(1) Some]]) (simp_all add: set_pc_simps assms(1))
  with Some assms(2) show ?thesis by (simp add: evaluate_cached answer_time_def set_pc_simps)
next
  case None
  let ?w1 = "set_pc w i Missed"
  let ?w2 = "set_pc (?w1\<lparr>w_flight := Some i\<rparr>) i Leading"
  have lead: "step cx ?w1 ?w2" by (rule step.lead) (use assms(3) in \<open>simp_all add: set_pc_simps\<close>)
  have "agrees cx ?w2 i (answer_time (cx i) (w_now ?w2) (w_ag ?w2)) (evaluate (cx i) (w_now ?w2) (w_ag ?w2))"
    by (rule agrees_Leading) (use assms(2) None in \<open>simp_all add: set_pc_simps\<close>)
  then have "agrees cx ?w2 i (answer_time (cx i) (w_now w) (w_ag w)) (evaluate (cx i) (w_now w) (w_ag w))"
    by (simp add: set_pc_simps)
  then have "agrees cx ?w1 i (answer_time (cx i) (w_now w) (w_ag w)) (evaluate (cx i) (w_now w) (w_ag w))"
    by (rule agrees_silent [OF lead]) (simp_all add: set_pc_simps)
  then show ?thesis
    by (rule agrees_silent [OF step.miss [OF assms(1) None]]) (simp_all add: set_pc_simps assms(1))
qed

text \<open>A call begins by one step, which leaves everything but the caller as it is.\<close>

lemma evaluate_agrees:
  assumes "w_pc w i = Idle" "w_flight w = None"
  obtains p where "step cx w (set_pc w i p)" "p \<noteq> Idle"
    "agrees cx (set_pc w i p) i (answer_time (cx i) (w_now w) (w_ag w)) (evaluate (cx i) (w_now w) (w_ag w))"
proof (cases "ag_shutting_down (w_ag w)")
  case True
  let ?p = "Answered (shutdown_result (w_ag w) (w_now w))"
  have "agrees cx (set_pc w i ?p) i (w_now (set_pc w i ?p)) (shutdown_result (w_ag w) (w_now w), [], w_ag w)"
    by (rule agrees_answered) (simp_all add: set_pc_simps assms(2))
  with that [OF step.refuse [OF assms(1) True]] True show ?thesis
    by (simp add: evaluate_shutting_down answer_time_def set_pc_simps)
next
  case False
  let ?w1 = "set_pc w i Checked"
  have "agrees cx ?w1 i (answer_time (cx i) (w_now ?w1) (w_ag ?w1)) (evaluate (cx i) (w_now ?w1) (w_ag ?w1))"
    by (rule agrees_Checked) (use assms(2) False in \<open>simp_all add: set_pc_simps\<close>)
  with that [OF step.enter [OF assms(1) False]] show ?thesis by (simp add: set_pc_simps)
qed

text \<open>
  What a call does when nobody interferes, as the one-call-at-a-time model computes
  it, is an execution of the concurrent model: same answer, same aggregator, same effects at
  the instant at which it says, and no flight left behind.
\<close>

theorem evaluate_is_an_execution:
  assumes "w_pc w i = Idle" and "w_flight w = None"
  shows "\<exists>w'. steps cx w w' \<and> w_pc w' i = Answered (fst (evaluate (cx i) (w_now w) (w_ag w))) \<and>
    w_ag w' = snd (snd (evaluate (cx i) (w_now w) (w_ag w))) \<and>
    w_now w' = answer_time (cx i) (w_now w) (w_ag w) \<and> w_flight w' = None \<and>
    w_effects w' = w_effects w @ map (Pair (w_now w')) (fst (snd (evaluate (cx i) (w_now w) (w_ag w))))"
proof -
  from evaluate_agrees [OF assms] obtain p where first: "step cx w (set_pc w i p)"
    and rest: "agrees cx (set_pc w i p) i (answer_time (cx i) (w_now w) (w_ag w)) (evaluate (cx i) (w_now w) (w_ag w))"
    by blast
  have "steps cx w w'" if "quiet cx (set_pc w i p) w'" for w'
    by (rule steps_trans [OF quiet_steps [OF that] steps_one [OF first]])
  with rest show ?thesis by (fastforce simp: agrees_def set_pc_simps)
qed

theorem evaluate_is_an_execution_witness:
  "\<exists>w'. steps (\<lambda>_. run_context) (initial run_options 0) w' \<and>
     w_pc w' 0 = Answered (fst (evaluate run_context 0 (new_aggregator run_options)))"
  using evaluate_is_an_execution [of "initial run_options 0" 0 "\<lambda>_. run_context"]
  by (auto simp: initial_def)

end
