(* ===== verification/Lifecycle.thy ===== *)
theory Lifecycle
  imports Go_Errors Go_Slog Health_Checker
begin

text \<open>
  \<open>internal/lifecycle/shutdown.go\<close>: the bounded sequence of shutdown steps, and the two
  stages of termination signals.
\<close>

section \<open>Shutdown\<close>

text \<open>
  A step: its name, and what its function answers when called at an instant with a context
  that has the given deadline: an error or none, and the time it takes, \<open>None\<close> if it never
  returns.
\<close>

record shutdown_step =
  step_name :: go_string
  step_fn :: "instant \<Rightarrow> instant \<Rightarrow> go_error option \<times> duration option"

text \<open>
  The options: \<open>so_second\<close> is when the repeated signal arrives in the channel and its name
  (\<open>None\<close> for the nil signal), if it ever does.
\<close>

record shutdown_options =
  so_grace_period :: duration
  so_signal :: go_string
  so_second :: "(instant \<times> go_string option) option"

definition forced_exit_code :: int where
  "forced_exit_code = 1"

definition err_timeout :: go_error where
  "err_timeout = ErrorString ''shutdown exceeded its grace period''"

type_synonym log_event = "level \<times> go_string \<times> attr list"

text \<open>
  The goroutine that runs the steps: the starts of the steps it gets to, and what it sends
  to \<open>done\<close>, with the instant it does.
\<close>

fun run_steps ::
  "shutdown_step list \<Rightarrow> instant \<Rightarrow> instant \<Rightarrow>
   (go_string \<times> instant) list \<times> (go_error option \<times> instant) option" where
  "run_steps [] deadline t = ([], Some (None, t))"
| "run_steps (s # ss) deadline t =
     (case step_fn s deadline t of
        (_, None) \<Rightarrow> ([(step_name s, t)], None)
      | (Some e, Some d) \<Rightarrow> ([(step_name s, t)], Some (Some e, t + d))
      | (None, Some d) \<Rightarrow>
          (let (starts, res) = run_steps ss deadline (t + d) in ((step_name s, t) # starts, res)))"

fun signal_name :: "go_string option \<Rightarrow> go_string" where
  "signal_name None = ''unknown''"
| "signal_name (Some s) = s"

text \<open>What \<open>Shutdown\<close> does: the events it logs, the exit code if it calls \<open>exit\<close>, its result.\<close>

record outcome =
  oc_at :: instant
  oc_events :: "log_event list"
  oc_exit :: "int option"
  oc_error :: "go_error option"

datatype branch = Done "go_error option" instant | Second "go_string option" instant | Expired instant

fun branch_time :: "branch \<Rightarrow> instant" where
  "branch_time (Done _ t) = t"
| "branch_time (Second _ t) = t"
| "branch_time (Expired t) = t"

text \<open>
  The cases of the \<open>select\<close> that become ready, each with the instant it does; \<open>select\<close> takes
  one of those that are ready first.
\<close>

definition branches :: "shutdown_options \<Rightarrow> shutdown_step list \<Rightarrow> instant \<Rightarrow> branch list" where
  "branches opts steps t =
     (let deadline = t + so_grace_period opts in
      (case snd (run_steps steps deadline t) of None \<Rightarrow> [] | Some (err, u) \<Rightarrow> [Done err u]) @
      (case so_second opts of None \<Rightarrow> [] | Some (u, s) \<Rightarrow> [Second s (max t u)]) @
      [Expired (max t deadline)])"

definition taken :: "branch list \<Rightarrow> branch list" where
  "taken bs = filter (\<lambda>b. list_all (\<lambda>c. branch_time b \<le> branch_time c) bs) bs"

definition started_event :: "shutdown_options \<Rightarrow> log_event" where
  "started_event opts =
     (level_info, ''shutdown_started'',
      [(''signal'', VString (so_signal opts)),
       (''grace_period'', VString (duration_string (so_grace_period opts)))])"

definition react :: "shutdown_options \<Rightarrow> instant \<Rightarrow> branch \<Rightarrow> outcome" where
  "react opts start b =
     (case b of
        Done (Some e) t \<Rightarrow>
          \<lparr>oc_at = t, oc_events = [], oc_exit = None, oc_error = Some e\<rparr>
      | Done None t \<Rightarrow>
          \<lparr>oc_at = t,
           oc_events = [(level_info, ''shutdown_complete'',
             [(''duration_ms'', VInt (milliseconds (t - start)))])],
           oc_exit = None, oc_error = None\<rparr>
      | Second s t \<Rightarrow>
          \<lparr>oc_at = t,
           oc_events = [(level_warn, ''shutdown_forced'',
             [(''signal'', VString (signal_name s)), (''elapsed_ms'', VInt (milliseconds (t - start)))])],
           oc_exit = Some forced_exit_code, oc_error = None\<rparr>
      | Expired t \<Rightarrow>
          \<lparr>oc_at = t,
           oc_events = [(level_error, ''shutdown_timeout'',
             [(''grace_period'', VString (duration_string (so_grace_period opts))),
              (''error_class'', VString ''timeout''),
              (''elapsed_ms'', VInt (milliseconds (t - start)))])],
           oc_exit = Some forced_exit_code, oc_error = Some err_timeout\<rparr>)"

text \<open>\<open>Shutdown\<close>, called at \<open>t\<close>: every outcome the scheduler may give it.\<close>

definition shutdown :: "shutdown_options \<Rightarrow> shutdown_step list \<Rightarrow> instant \<Rightarrow> outcome list" where
  "shutdown opts steps t =
     map (\<lambda>b. let o1 = react opts t b in o1\<lparr>oc_events := started_event opts # oc_events o1\<rparr>)
       (taken (branches opts steps t))"

text \<open>\<open>Aborted\<close>.\<close>

definition aborted :: "req_context \<Rightarrow> instant \<Rightarrow> bool" where
  "aborted ctx t \<longleftrightarrow> context_err ctx t \<noteq> None"

section \<open>Signals\<close>

text \<open>A signal is its name, as its \<open>String\<close> method gives it: SIGINT and SIGTERM.\<close>

definition default_signals :: "go_string list" where
  "default_signals = [''interrupt'', ''terminated'']"

text \<open>
  What \<open>Signals\<close> sets up, for the signals \<open>sg_signals\<close>. These are numbered in the order in
  which they are delivered to the process. \<open>sg_notify\<close> is the channel of
  \<open>signal.NotifyContext\<close> (one slot), which its own goroutine empties by canceling the context;
  \<open>sg_repeat\<close> is the channel for the second signal (one slot), registered once the other
  goroutine has seen the context done.
\<close>

record signals =
  sg_signals :: "go_string list"
  sg_count :: nat
  sg_registered :: bool
  sg_notify :: "nat option"
  sg_done :: bool
  sg_armed :: bool
  sg_repeat :: "(nat \<times> go_string) option"
  sg_rearmed :: bool
  sg_killed :: bool

definition signals_init :: "go_string list \<Rightarrow> signals" where
  "signals_init sigs =
     \<lparr>sg_signals = (if sigs = [] then default_signals else sigs), sg_count = 0, sg_registered = True, sg_notify = None, sg_done = False, sg_armed = False,
      sg_repeat = None, sg_rearmed = False, sg_killed = False\<rparr>"

datatype signal_event = Deliver go_string | CancelByNotify | Rearm | Stop

text \<open>
  \<open>Deliver\<close>: the runtime puts the signal in every registered channel that has room; without
  any registration the default action ends the process. A signal that was not asked for is
  none of the function's business. \<open>CancelByNotify\<close> and \<open>Rearm\<close> are
  the two goroutines, \<open>Stop\<close> is the returned function.
\<close>

definition signal_step :: "signal_event \<Rightarrow> signals \<Rightarrow> signals" where
  "signal_step ev s =
     (case ev of
        Deliver sig \<Rightarrow>
          (if sig \<notin> set (sg_signals s) then s else
           let n = Suc (sg_count s) in
           s\<lparr>sg_count := n,
             sg_notify := (if sg_registered s \<and> sg_notify s = None then Some n else sg_notify s),
             sg_repeat := (if sg_armed s \<and> sg_repeat s = None then Some (n, sig) else sg_repeat s),
             sg_killed := (sg_killed s \<or> \<not> sg_registered s \<and> \<not> sg_armed s)\<rparr>)
      | CancelByNotify \<Rightarrow>
          (if sg_notify s \<noteq> None \<and> \<not> sg_done s then s\<lparr>sg_done := True, sg_notify := None\<rparr> else s)
      | Rearm \<Rightarrow>
          (if sg_done s \<and> \<not> sg_rearmed s then s\<lparr>sg_armed := True, sg_rearmed := True\<rparr> else s)
      | Stop \<Rightarrow> s\<lparr>sg_armed := False, sg_registered := False, sg_done := True\<rparr>)"

definition signal_run :: "go_string list \<Rightarrow> signal_event list \<Rightarrow> signals" where
  "signal_run sigs evs = fold signal_step evs (signals_init sigs)"

text \<open>
  A schedule: the events with their instants, in their order. \<open>done_at\<close> is when the context
  is done, \<open>repeat_at\<close> when the second channel gets a signal, and which.
\<close>

type_synonym schedule = "(instant \<times> signal_event) list"

fun done_at :: "signals \<Rightarrow> schedule \<Rightarrow> instant option" where
  "done_at s [] = None"
| "done_at s ((t, ev) # evs) =
     (let s' = signal_step ev s in if sg_done s' then Some t else done_at s' evs)"

fun repeat_at :: "signals \<Rightarrow> schedule \<Rightarrow> (instant \<times> go_string option) option" where
  "repeat_at s [] = None"
| "repeat_at s ((t, ev) # evs) =
     (let s' = signal_step ev s in
      case sg_repeat s' of None \<Rightarrow> repeat_at s' evs | Some (_, sig) \<Rightarrow> Some (t, Some sig))"

text \<open>The context and the channel that \<open>Signals\<close> returns, as the schedule has them.\<close>

definition signal_context :: "go_string list \<Rightarrow> schedule \<Rightarrow> req_context" where
  "signal_context sigs sched =
     \<lparr>cx_log = background, cx_deadline = None, cx_canceled = done_at (signals_init sigs) sched\<rparr>"

definition second_signal :: "go_string list \<Rightarrow> schedule \<Rightarrow> (instant \<times> go_string option) option" where
  "second_signal sigs sched = repeat_at (signals_init sigs) sched"

end
