(* ===== verification/Lifecycle_Properties.thy ===== *)
theory Lifecycle_Properties
  imports Lifecycle
begin

text \<open>
  The properties of the shutdown sequence and of the signals.
\<close>

section \<open>The sequence\<close>

lemma branches_not_Nil: "branches opts steps t \<noteq> []"
  by (simp add: branches_def Let_def)

lemma taken_not_Nil:
  assumes "bs \<noteq> []"
  shows "taken bs \<noteq> []"
proof -
  have "\<exists>b \<in> set bs. \<forall>c \<in> set bs. branch_time b \<le> branch_time c" if "bs \<noteq> []" for bs
    using that
  proof (induction bs)
    case (Cons a bs)
    show ?case
    proof (cases "bs = []")
      case False
      with Cons obtain b where "b \<in> set bs" "\<forall>c \<in> set bs. branch_time b \<le> branch_time c" by blast
      then show ?thesis
      proof (cases "branch_time a \<le> branch_time b")
        case True
        with \<open>\<forall>c \<in> set bs. _\<close> show ?thesis by (intro bexI [of _ a]) (auto intro: order.trans)
      next
        case False
        with \<open>b \<in> set bs\<close> \<open>\<forall>c \<in> set bs. _\<close> show ?thesis by (intro bexI [of _ b]) auto
      qed
    qed simp
  qed simp
  with assms show ?thesis by (auto simp: taken_def filter_empty_conv list_all_iff)
qed

lemma react_at: "oc_at (react opts start b) = branch_time b"
  by (cases b) (auto simp: react_def split: option.splits)

lemma shutdown_outcome:
  assumes "oc \<in> set (shutdown opts steps t)"
  obtains b where "b \<in> set (taken (branches opts steps t))"
    and "oc = (let o1 = react opts t b in o1\<lparr>oc_events := started_event opts # oc_events o1\<rparr>)"
  using assms by (auto simp: shutdown_def)

text \<open>
  C25: Shutdown always comes to an end, at the latest when the grace period is over,
  whatever the steps do: steps that hang, fail or take too long included.
\<close>

theorem shutdown_is_bounded:
  assumes "0 \<le> so_grace_period opts"
  shows "shutdown opts steps t \<noteq> [] \<and>
    list_all (\<lambda>oc. oc_at oc \<le> t + so_grace_period opts) (shutdown opts steps t)"
proof
  show "shutdown opts steps t \<noteq> []"
    using taken_not_Nil [OF branches_not_Nil] by (simp add: shutdown_def)
  have "Expired (t + so_grace_period opts) \<in> set (branches opts steps t)"
    using assms by (simp add: branches_def Let_def max_def)
  then have "branch_time b \<le> t + so_grace_period opts" if "b \<in> set (taken (branches opts steps t))" for b
    using that by (fastforce simp: taken_def list_all_iff)
  then show "list_all (\<lambda>oc. oc_at oc \<le> t + so_grace_period opts) (shutdown opts steps t)"
    by (auto simp: shutdown_def list_all_iff react_at Let_def)
qed

definition hang :: shutdown_step where
  "hang = \<lparr>step_name = ''http_server'', step_fn = (\<lambda>_ _. (None, None))\<rparr>"

definition hang_options :: shutdown_options where
  "hang_options = \<lparr>so_grace_period = 10, so_signal = ''SIGTERM'', so_second = None\<rparr>"

theorem shutdown_is_bounded_witness:
  "list_all (\<lambda>oc. oc_at oc \<le> 17) (shutdown hang_options [hang] 7) \<and>
   shutdown hang_options [hang] 7 \<noteq> []"
  using shutdown_is_bounded [of hang_options "[hang]" 7] by (simp add: hang_options_def)

lemma run_steps_prefix:
  "prefix (map fst (fst (run_steps steps deadline t))) (map step_name steps)"
  by (induction steps arbitrary: t) (auto split: prod.splits option.splits, metis fst_conv)

lemma run_steps_clean:
  "snd (run_steps steps deadline t) = Some (None, u) \<Longrightarrow>
     map fst (fst (run_steps steps deadline t)) = map step_name steps"
  by (induction steps arbitrary: t) (auto split: prod.splits option.splits, metis fst_conv snd_conv)

definition forward :: "shutdown_step list \<Rightarrow> bool" where
  "forward steps \<longleftrightarrow> (\<forall>s \<in> set steps. \<forall>dl u d. snd (step_fn s dl u) = Some d \<longrightarrow> 0 \<le> d)"

lemma run_steps_times:
  assumes "forward steps" "snd (run_steps steps deadline t) = Some (err, u)"
  shows "t \<le> u \<and> (\<forall>x \<in> set (fst (run_steps steps deadline t)). snd x \<le> u)"
  using assms
proof (induction steps arbitrary: t)
  case (Cons s ss)
  obtain e od where eo: "step_fn s deadline t = (e, od)" by fastforce
  then obtain d where sd: "step_fn s deadline t = (e, Some d)"
    using Cons.prems(2) by (cases od; cases e) auto
  then have d: "0 \<le> d" "forward ss" using Cons.prems(1) unfolding forward_def by (metis list.set_intros(1) snd_conv, auto)
  show ?case
  proof (cases e)
    case None
    with Cons.prems sd have "snd (run_steps ss deadline (t + d)) = Some (err, u)"
      by (auto split: prod.splits)
    from Cons.IH [OF d(2) this] d(1) None sd show ?thesis
      by (auto split: prod.splits)
  next
    case (Some x)
    with Cons.prems sd d show ?thesis by auto
  qed
qed simp

lemma clean_outcome:
  assumes "oc \<in> set (shutdown opts steps t)" and "oc_error oc = None" and "oc_exit oc = None"
  shows "map fst (fst (run_steps steps (t + so_grace_period opts) t)) = map step_name steps \<and>
    snd (run_steps steps (t + so_grace_period opts) t) = Some (None, oc_at oc) \<and>
    oc_at oc \<le> max t (t + so_grace_period opts) \<and>
    (\<forall>u s. so_second opts = Some (u, s) \<longrightarrow> oc_at oc \<le> max t u) \<and>
    map (\<lambda>(l, msg, as). msg) (oc_events oc) = [''shutdown_started'', ''shutdown_complete'']"
proof -
  obtain b where b: "b \<in> set (taken (branches opts steps t))"
    and oc: "oc = (let o1 = react opts t b in o1\<lparr>oc_events := started_event opts # oc_events o1\<rparr>)"
    using shutdown_outcome [OF assms(1)] by blast
  obtain u where u: "b = Done None u"
    using assms(2,3) oc by (cases b) (auto simp: react_def Let_def split: option.splits)
  have first: "\<forall>c \<in> set (branches opts steps t). u \<le> branch_time c"
    and mem: "Done None u \<in> set (branches opts steps t)"
    using b by (auto simp: taken_def list_all_iff u)
  have res: "snd (run_steps steps (t + so_grace_period opts) t) = Some (None, u)"
    using mem by (auto simp: branches_def Let_def split: option.splits prod.splits)
  have at: "oc_at oc = u" "map (\<lambda>(l, msg, as). msg) (oc_events oc) = [''shutdown_started'', ''shutdown_complete'']"
    by (simp_all add: oc u react_def started_event_def Let_def)
  have "Expired (max t (t + so_grace_period opts)) \<in> set (branches opts steps t)"
    by (simp add: branches_def Let_def)
  then have "u \<le> max t (t + so_grace_period opts)" using first by fastforce
  moreover have "u \<le> max t v" if "so_second opts = Some (v, s)" for v s
  proof -
    have "Second s (max t v) \<in> set (branches opts steps t)"
      using that by (simp add: branches_def Let_def)
    then show ?thesis using first by fastforce
  qed
  ultimately show ?thesis using run_steps_clean [OF res] res at by simp
qed

text \<open>
  C26: A shutdown that reports success has run every step, in the given order, each one
  after the one before it had returned without an error, and was done within the grace
  period and before any repeated signal; it logs its start and its completion and nothing
  else, and does not exit the process.
\<close>

theorem clean_shutdown_ran_every_step:
  assumes "oc \<in> set (shutdown opts steps t)" and "oc_error oc = None" and "oc_exit oc = None"
  shows "map fst (fst (run_steps steps (t + so_grace_period opts) t)) = map step_name steps \<and>
    snd (run_steps steps (t + so_grace_period opts) t) = Some (None, oc_at oc) \<and>
    oc_at oc \<le> max t (t + so_grace_period opts) \<and>
    (\<forall>u s. so_second opts = Some (u, s) \<longrightarrow> oc_at oc \<le> max t u) \<and>
    map (\<lambda>(l, msg, as). msg) (oc_events oc) = [''shutdown_started'', ''shutdown_complete'']"
  using assms by (rule clean_outcome)

definition two_steps :: "shutdown_step list" where
  "two_steps =
     [\<lparr>step_name = ''readiness_gate'', step_fn = (\<lambda>_ _. (None, Some 0))\<rparr>,
      \<lparr>step_name = ''http_server'', step_fn = (\<lambda>_ _. (None, Some 4))\<rparr>]"

theorem clean_shutdown_ran_every_step_witness:
  "\<exists>oc \<in> set (shutdown hang_options two_steps 7). oc_at oc = 11 \<and>
     map fst (fst (run_steps two_steps 17 7)) = [''readiness_gate'', ''http_server'']"
proof -
  have "\<exists>oc \<in> set (shutdown hang_options two_steps 7). oc_error oc = None \<and> oc_exit oc = None \<and> oc_at oc = 11"
    by code_simp
  then obtain oc where oc: "oc \<in> set (shutdown hang_options two_steps 7)" "oc_error oc = None"
    "oc_exit oc = None" "oc_at oc = 11" by blast
  from clean_shutdown_ran_every_step [OF oc(1-3)] oc(1,4) show ?thesis
    by (auto simp: hang_options_def two_steps_def)
qed

text \<open>
  A step that waits for its context and passes the context's error on, as the server's
  shutdown does: when the grace period is over, the sequence may end without the timeout
  event and without the forced exit, because the step's answer and the expiry are ready at
  the same instant.
\<close>

definition drain_until_deadline :: shutdown_step where
  "drain_until_deadline =
     \<lparr>step_name = ''http_server'',
      step_fn = (\<lambda>deadline t. (Some CtxDeadlineExceeded, Some (deadline - t)))\<rparr>"

lemma expiry_race:
  "map (\<lambda>oc. (oc_exit oc, oc_error oc, map (fst \<circ> snd) (oc_events oc)))
       (shutdown hang_options [drain_until_deadline] 7) =
     [(None, Some CtxDeadlineExceeded, [''shutdown_started'']),
      (Some 1, Some err_timeout, [''shutdown_started'', ''shutdown_timeout''])]"
  by code_simp

section \<open>Signals\<close>

text \<open>The signals of an execution that were asked for, in the order of their delivery.\<close>

fun relays :: "go_string list \<Rightarrow> signal_event \<Rightarrow> go_string list" where
  "relays sigs (Deliver sig) = (if sig \<in> set sigs then [sig] else [])"
| "relays sigs ev = []"

definition relayed :: "go_string list \<Rightarrow> signal_event list \<Rightarrow> go_string list" where
  "relayed sigs evs = concat (map (relays sigs) evs)"

lemma relayed_simps [simp]:
  "relayed sigs [] = []"
  "relayed sigs (ev # evs) = relays sigs ev @ relayed sigs evs"
  by (simp_all add: relayed_def)

text \<open>The invariant of the two stages, once the signals \<open>h\<close> have come.\<close>

definition signals_ok :: "go_string list \<Rightarrow> signals \<Rightarrow> bool" where
  "signals_ok h s \<longleftrightarrow> sg_registered s \<and> \<not> sg_killed s \<and> sg_count s = length h \<and>
     (sg_notify s \<noteq> None \<or> sg_done s \<longleftrightarrow> h \<noteq> []) \<and>
     (sg_armed s \<longrightarrow> sg_done s) \<and>
     (\<forall>n sig. sg_repeat s = Some (n, sig) \<longrightarrow> 2 \<le> n \<and> n \<le> length h \<and> h ! (n - 1) = sig)"

lemma signals_init_ok: "signals_ok [] (signals_init sigs)"
  by (simp add: signals_ok_def signals_init_def)

lemma signal_step_signals [simp]: "sg_signals (signal_step ev s) = sg_signals s"
  by (cases ev) (simp_all add: signal_step_def Let_def)

lemma signal_step_ok:
  assumes "signals_ok h s" "ev \<noteq> Stop"
  shows "signals_ok (h @ relays (sg_signals s) ev) (signal_step ev s)"
proof (cases ev)
  case (Deliver sig)
  with assms(1) show ?thesis
    by (auto simp: signals_ok_def signal_step_def Let_def nth_append Suc_le_eq split: if_splits)
qed (use assms in \<open>auto simp: signals_ok_def signal_step_def\<close>)

lemma fold_signals_ok:
  "signals_ok h s \<Longrightarrow> Stop \<notin> set evs \<Longrightarrow>
     signals_ok (h @ relayed (sg_signals s) evs) (fold signal_step evs s)"
proof (induction evs arbitrary: h s)
  case (Cons ev evs)
  have "ev \<noteq> Stop" "Stop \<notin> set evs" using Cons.prems(2) by auto
  from Cons.IH [OF signal_step_ok [OF Cons.prems(1) this(1)] this(2)] show ?case by simp
qed simp

text \<open>
  Until the returned function is called, no signal ends the process by default, the
  context is done only after a first signal, and what the second channel carries is never
  that first signal, however the deliveries and the two goroutines interleave.
\<close>

lemma second_is_never_first:
  assumes "Stop \<notin> set evs"
  shows "signals_ok (relayed (sg_signals (signals_init sigs)) evs) (signal_run sigs evs)"
  using fold_signals_ok [OF signals_init_ok assms] by (simp add: signal_run_def)

lemma done_at_relayed:
  assumes "done_at s sched = Some t" "signals_ok h s" "Stop \<notin> snd ` set sched"
  shows "h @ relayed (sg_signals s) (map snd sched) \<noteq> []"
  using assms
proof (induction sched arbitrary: h s)
  case (Cons e sched)
  obtain u ev where e: "e = (u, ev)" by fastforce
  have ok: "signals_ok (h @ relays (sg_signals s) ev) (signal_step ev s)"
    using Cons.prems(2,3) e by (intro signal_step_ok) auto
  show ?case
  proof (cases "sg_done (signal_step ev s)")
    case True
    with ok e show ?thesis by (auto simp: signals_ok_def)
  next
    case False
    with Cons.prems(1,3) e Cons.IH [OF _ ok] show ?thesis by (auto simp: Let_def)
  qed
qed simp

lemma repeat_at_relayed:
  assumes "repeat_at s sched = Some (t, o')" "signals_ok h s" "Stop \<notin> snd ` set sched"
  shows "\<exists>n sig. o' = Some sig \<and> 1 \<le> n \<and> n < length (h @ relayed (sg_signals s) (map snd sched)) \<and>
    (h @ relayed (sg_signals s) (map snd sched)) ! n = sig"
  using assms
proof (induction sched arbitrary: h s)
  case (Cons e sched)
  obtain u ev where e: "e = (u, ev)" by fastforce
  have ok: "signals_ok (h @ relays (sg_signals s) ev) (signal_step ev s)"
    using Cons.prems(2,3) e by (intro signal_step_ok) auto
  show ?case
  proof (cases "sg_repeat (signal_step ev s)")
    case (Some p)
    obtain n sig where p: "p = (n, sig)" by fastforce
    let ?h = "h @ relays (sg_signals s) ev"
    have "2 \<le> n" "n \<le> length ?h" "?h ! (n - 1) = sig"
      using ok Some p by (auto simp: signals_ok_def)
    moreover from this have "(?h @ relayed (sg_signals s) (map snd sched)) ! (n - 1) = sig"
      by (subst nth_append) auto
    ultimately show ?thesis using Cons.prems(1) Some p e
      by (intro exI [of _ "n - 1"]) (auto simp: Let_def)
  next
    case None
    with Cons.prems(1,3) e Cons.IH [OF _ ok] show ?thesis by (auto simp: Let_def)
  qed
qed simp

text \<open>A forced exit names the signal that the second channel brought.\<close>

lemma forced_names_second:
  assumes "oc \<in> set (shutdown opts steps t)" "(level_warn, ''shutdown_forced'', as) \<in> set (oc_events oc)"
  obtains u s where "so_second opts = Some (u, s)" "(''signal'', VString (signal_name s)) \<in> set as"
    "oc_exit oc = Some forced_exit_code"
proof -
  obtain b where b: "b \<in> set (branches opts steps t)"
    and oc: "oc = (let o1 = react opts t b in o1\<lparr>oc_events := started_event opts # oc_events o1\<rparr>)"
    using shutdown_outcome [OF assms(1)] by (auto simp: taken_def)
  from assms(2) oc obtain s u where "b = Second s u" "(''signal'', VString (signal_name s)) \<in> set as"
    by (cases b) (auto simp: react_def started_event_def Let_def split: option.splits)
  moreover from this b obtain v where "so_second opts = Some (v, s)"
    by (cases "so_second opts") (auto simp: branches_def Let_def split: option.splits)
  ultimately show thesis using that oc by (simp add: react_def Let_def)
qed

text \<open>What that means of the context and of the channel that \<open>Signals\<close> returns.\<close>

lemma aborted_relayed:
  assumes "Stop \<notin> snd ` set sched" "cx_canceled (signal_context [] sched) = Some t"
  shows "relayed default_signals (map snd sched) \<noteq> []"
proof -
  have "done_at (signals_init []) sched = Some t" "sg_signals (signals_init []) = default_signals"
    using assms(2) by (simp_all add: signal_context_def signals_init_def)
  with done_at_relayed [OF this(1) signals_init_ok assms(1)] show ?thesis by simp
qed

lemma second_signal_relayed:
  assumes "Stop \<notin> snd ` set sched" "second_signal [] sched = Some (t, o')"
  obtains n sig where "o' = Some sig" "1 \<le> n" "n < length (relayed default_signals (map snd sched))"
    "relayed default_signals (map snd sched) ! n = sig"
proof -
  have "repeat_at (signals_init []) sched = Some (t, o')" "sg_signals (signals_init []) = default_signals"
    using assms(2) by (simp_all add: second_signal_def signals_init_def)
  with repeat_at_relayed [OF this(1) signals_init_ok assms(1)] that show thesis by auto
qed

text \<open>
  A second signal that comes before the goroutine has registered the second channel is
  dropped. The returned function, called before any signal, makes that goroutine register
  the channel, which nobody reads any more, so that later signals have no effect at all.
\<close>

lemma second_signal_can_be_lost:
  "second_signal [] [(1, Deliver ''interrupt''), (2, Deliver ''interrupt''), (3, CancelByNotify),
     (4, Rearm)] = None"
  by code_simp

lemma stop_rearms:
  "sg_armed (signal_run [] [Stop, Rearm, Deliver ''interrupt'']) \<and>
   \<not> sg_killed (signal_run [] [Stop, Rearm, Deliver ''interrupt'']) \<and>
   sg_killed (signal_run [] [Stop, Deliver ''interrupt''])"
  by code_simp

end
