(* ===== verification/Observability.thy ===== *)
theory Observability
  imports Go_Time
begin

text \<open>
  \<open>internal/observability\<close>: the registry and the two groups of metrics. The Prometheus
  client library keeps the series; what is modelled is which series the program touches and
  with which values. Observations are kept as durations (the program hands the library
  their number of seconds), the counting into buckets is left to the library.
\<close>

section \<open>Registry\<close>

definition namespace :: go_string where
  "namespace = ''pulseflow''"

text \<open>The library's full name of a metric.\<close>

definition fq_name :: "go_string \<Rightarrow> go_string" where
  "fq_name name = namespace @ ''_'' @ name"

record build_info =
  bi_version :: go_string
  bi_commit :: go_string

text \<open>
  The registered collectors by name, and the one constant series. \<open>MustRegister\<close> panics on a
  name that is taken: \<open>None\<close>.
\<close>

record registry =
  rg_names :: "go_string list"
  rg_build_info :: "(go_string \<times> go_string \<times> go_string) \<times> int"

definition must_register :: "go_string list \<Rightarrow> registry \<Rightarrow> registry option" where
  "must_register names reg =
     (if distinct (rg_names reg @ names) then Some (reg\<lparr>rg_names := rg_names reg @ names\<rparr>) else None)"

text \<open>\<open>go_version\<close> is \<open>runtime.Version()\<close>.\<close>

definition new_registry :: "go_string \<Rightarrow> build_info \<Rightarrow> registry option" where
  "new_registry go_version info =
     (let reg = \<lparr>rg_names = [], rg_build_info = (('''', '''', ''''), 0)\<rparr> in
      case must_register [''go_collector'', ''process_collector''] reg of
        None \<Rightarrow> None
      | Some reg \<Rightarrow>
          must_register [fq_name ''build_info'']
            (reg\<lparr>rg_build_info := ((bi_version info, bi_commit info, go_version), 1)\<rparr>))"

section \<open>HTTP metrics\<close>

record http_metrics =
  hm_requests :: "go_string \<times> go_string \<times> go_string \<Rightarrow> int"
  hm_duration :: "go_string \<times> go_string \<Rightarrow> duration list"

definition new_http_metrics :: "registry \<Rightarrow> (http_metrics \<times> registry) option" where
  "new_http_metrics reg =
     map_option (\<lambda>reg. (\<lparr>hm_requests = (\<lambda>_. 0), hm_duration = (\<lambda>_. [])\<rparr>, reg))
       (must_register [fq_name ''http_requests_total'', fq_name ''http_request_duration_seconds''] reg)"

definition observe_http ::
  "http_metrics \<Rightarrow> go_string \<Rightarrow> go_string \<Rightarrow> int \<Rightarrow> duration \<Rightarrow> http_metrics" where
  "observe_http m route method code d =
     m\<lparr>hm_requests := (hm_requests m)((route, method, itoa code) :=
          hm_requests m (route, method, itoa code) + 1),
       hm_duration := (hm_duration m)((route, method) := hm_duration m (route, method) @ [d])\<rparr>"

section \<open>Dependency metrics\<close>

record dependency_metrics =
  dm_up :: "go_string \<rightharpoonup> int"
  dm_duration :: "go_string \<Rightarrow> duration list"
  dm_buckets :: "duration list"

text \<open>The upper bounds of the buckets, in nanoseconds: 1 ms to 5 s.\<close>

definition dependency_buckets :: "duration list" where
  "dependency_buckets = map ((*) 1000000) [1, 5, 10, 25, 50, 100, 250, 500, 1000, 2000, 5000]"

text \<open>The library panics on bounds that do not increase: \<open>None\<close>.\<close>

definition new_histogram :: "duration list \<Rightarrow> (go_string \<Rightarrow> duration list) option" where
  "new_histogram bounds = (if sorted_wrt (<) bounds then Some (\<lambda>_. []) else None)"

definition new_dependency_metrics :: "registry \<Rightarrow> (dependency_metrics \<times> registry) option" where
  "new_dependency_metrics reg =
     (case new_histogram dependency_buckets of
        None \<Rightarrow> None
      | Some h \<Rightarrow>
          map_option (\<lambda>reg. (\<lparr>dm_up = Map.empty, dm_duration = h, dm_buckets = dependency_buckets\<rparr>, reg))
            (must_register [fq_name ''dependency_up'', fq_name ''dependency_check_duration_seconds''] reg))"

definition record_dependency_check ::
  "dependency_metrics \<Rightarrow> go_string \<Rightarrow> bool \<Rightarrow> duration \<Rightarrow> dependency_metrics" where
  "record_dependency_check m name healthy d =
     m\<lparr>dm_up := (dm_up m)(name \<mapsto> (if healthy then 1 else 0)),
       dm_duration := (dm_duration m)(name := dm_duration m name @ [d])\<rparr>"

end
