(* ===== verification/Http_Server.thy ===== *)
theory Http_Server
  imports Go_Net Observability Log_Handler
begin

text \<open>
  \<open>internal/httpserver\<close>: the server and its routes, the middleware that every request
  passes, and the probe a process makes of itself.
\<close>

section \<open>Requests and handlers\<close>

record http_request =
  rq_method :: go_string
  rq_path :: go_string
  rq_headers :: "(go_string \<times> go_string) list"

definition rq_traceparent :: "http_request \<Rightarrow> go_string" where
  "rq_traceparent r = header_get (rq_headers r) traceparent_header"

text \<open>
  What a handler does with its \<open>ResponseWriter\<close>, in order, and the text of the value it
  panics with, if it does. \<open>SetHeader\<close> is \<open>w.Header().Set\<close>.
\<close>

datatype write_op = SetHeader go_string go_string | WriteHeader int | Write go_string

record handler_run =
  hr_ops :: "write_op list"
  hr_panic :: "go_string option"

type_synonym handler = "log_context \<Rightarrow> http_request \<Rightarrow> handler_run"

text \<open>
  The status that \<open>net/http\<close> sends to the client: the first final one written, 200 when the
  body is written or the handler returns without one. A 1xx status is informational.
\<close>

fun client_status :: "write_op list \<Rightarrow> int" where
  "client_status [] = 200"
| "client_status (SetHeader _ _ # ops) = client_status ops"
| "client_status (Write _ # ops) = 200"
| "client_status (WriteHeader c # ops) =
     (if 100 \<le> c \<and> c < 200 \<and> c \<noteq> 101 then client_status ops else c)"

section \<open>Routes\<close>

text \<open>
  \<open>http.ServeMux\<close> with patterns that are plain paths without a trailing slash: a request
  path is matched exactly after cleaning; a path that cleaning changes is redirected.
\<close>

definition clean_segments :: "go_string list \<Rightarrow> go_string list" where
  "clean_segments segs =
     rev (fold (\<lambda>s acc. if s = '''' \<or> s = ''.'' then acc
                        else if s = ''..'' then drop 1 acc else s # acc) segs [])"

definition clean_path :: "go_string \<Rightarrow> go_string" where
  "clean_path p =
     (if p = '''' then ''/''
      else (let p' = (if hd p = CHR ''/'' then p else CHR ''/'' # p);
                np = ''/'' @ join ''/'' (clean_segments (split_on CHR ''/'' p'))
            in if last p' = CHR ''/'' \<and> np \<noteq> ''/'' then np @ ''/'' else np))"

text \<open>The library's own handlers, less the redirect's short body.\<close>

definition not_found :: handler where
  "not_found ctx r =
     \<lparr>hr_ops = [SetHeader ''Content-Type'' ''text/plain; charset=utf-8'',
        SetHeader ''X-Content-Type-Options'' ''nosniff'', WriteHeader 404,
        Write (''404 page not found'' @ [CHR 0x0A])],
      hr_panic = None\<rparr>"

text \<open>307, as \<open>ServeMux\<close> redirects from Go 1.26 on.\<close>

definition redirect :: "go_string \<Rightarrow> handler" where
  "redirect url ctx r = \<lparr>hr_ops = [SetHeader ''Location'' url, WriteHeader 307], hr_panic = None\<rparr>"

type_synonym serve_mux = "(go_string \<times> handler) list"

text \<open>\<open>mux.Handler\<close>: the handler and the pattern, empty when nothing matches.\<close>

definition mux_handler :: "serve_mux \<Rightarrow> http_request \<Rightarrow> handler \<times> go_string" where
  "mux_handler mux r =
     (let path = (if rq_method r = ''CONNECT'' then rq_path r else clean_path (rq_path r));
          found = map_of mux path
      in if path \<noteq> rq_path r
         then (redirect path, (case found of None \<Rightarrow> '''' | Some _ \<Rightarrow> path))
         else (case found of None \<Rightarrow> (not_found, '''') | Some h \<Rightarrow> (h, path)))"

text \<open>The pattern whose handler the mux runs, if it runs one: neither for a redirect nor for a 404.\<close>

definition mux_route :: "serve_mux \<Rightarrow> http_request \<Rightarrow> go_string option" where
  "mux_route mux r =
     (if rq_method r \<noteq> ''CONNECT'' \<and> clean_path (rq_path r) \<noteq> rq_path r then None
      else if map_of mux (rq_path r) = None then None else Some (rq_path r))"

lemma mux_route_handler:
  "mux_route mux r = Some p \<Longrightarrow> \<exists>h. map_of mux p = Some h \<and> mux_handler mux r = (h, p)"
  by (auto simp: mux_route_def mux_handler_def Let_def split: if_splits)

section \<open>Middleware\<close>

definition route_unmatched :: go_string where
  "route_unmatched = ''unmatched''"

text \<open>\<open>statusRecorder\<close>; \<open>sr_inner\<close> is what reaches the wrapped writer.\<close>

record status_recorder =
  sr_inner :: "write_op list"
  sr_code :: int
  sr_written :: bool

definition new_recorder :: status_recorder where
  "new_recorder = \<lparr>sr_inner = [], sr_code = 200, sr_written = False\<rparr>"

text \<open>\<open>Header\<close> is the wrapped writer's own.\<close>

fun recorder_op :: "write_op \<Rightarrow> status_recorder \<Rightarrow> status_recorder" where
  "recorder_op (SetHeader k v) r = r\<lparr>sr_inner := sr_inner r @ [SetHeader k v]\<rparr>"
| "recorder_op (WriteHeader code) r =
     (let r = (if \<not> sr_written r then r\<lparr>sr_code := code, sr_written := True\<rparr> else r)
      in r\<lparr>sr_inner := sr_inner r @ [WriteHeader code]\<rparr>)"
| "recorder_op (Write b) r =
     (let r = (if \<not> sr_written r then r\<lparr>sr_code := 200, sr_written := True\<rparr> else r)
      in r\<lparr>sr_inner := sr_inner r @ [Write b]\<rparr>)"

text \<open>
  What serving a request through the middleware leaves behind: the operations on the real
  writer, the metrics, the log events (with the request's context), and that context.
\<close>

record served =
  sv_ops :: "write_op list"
  sv_metrics :: http_metrics
  sv_events :: "(level \<times> go_string \<times> attr list) list"
  sv_context :: log_context

text \<open>
  \<open>observe\<close>: \<open>rand\<close> is the random source if the request brings no identifier, \<open>elapsed\<close> the time
  the request takes.
\<close>

definition observe ::
  "serve_mux \<Rightarrow> http_metrics \<Rightarrow> (nat \<Rightarrow> 8 word list) \<Rightarrow> duration \<Rightarrow> log_context \<Rightarrow> http_request \<Rightarrow> served" where
  "observe mux metrics rand elapsed base r =
     (let (h, pattern) = mux_handler mux r;
          route = (if pattern = '''' then route_unmatched else pattern);
          ctx = context_with_trace_id base (trace_id_for_request rand (rq_traceparent r));
          run = h ctx r;
          rec = fold recorder_op (hr_ops run) new_recorder;
          rec = (if hr_panic run \<noteq> None \<and> \<not> sr_written rec
                 then recorder_op (WriteHeader 500) rec else rec);
          failed = (case hr_panic run of
              None \<Rightarrow> []
            | Some v \<Rightarrow>
                [(level_error, ''http_request_failed'',
                  [(''route'', VString route), (''method'', VString (rq_method r)),
                   (''code'', VInt (sr_code rec)), (''error_class'', VString ''panic''),
                   (''error'', VString (sanitize_string v))])]);
          metrics = observe_http metrics route (rq_method r) (sr_code rec) elapsed
      in \<lparr>sv_ops = sr_inner rec, sv_metrics = metrics,
          sv_events = failed @
            [(level_debug, ''http_request'',
              [(''route'', VString route), (''method'', VString (rq_method r)),
               (''code'', VInt (sr_code rec)), (''duration_ms'', VInt (milliseconds elapsed))])],
          sv_context = ctx\<rparr>)"

section \<open>Server\<close>

definition metrics_path :: go_string where
  "metrics_path = ''/metrics''"

record server =
  srv_mux :: serve_mux
  srv_addr :: go_string
  srv_read_header_timeout :: duration

text \<open>\<open>Server.Handle\<close>; registering a pattern twice panics: \<open>None\<close>.\<close>

definition server_handle :: "server \<Rightarrow> go_string \<Rightarrow> handler \<Rightarrow> server option" where
  "server_handle s pattern h =
     (if map_of (srv_mux s) pattern \<noteq> None then None
      else Some (s\<lparr>srv_mux := srv_mux s @ [(pattern, h)]\<rparr>))"

text \<open>\<open>New\<close>; \<open>prom\<close> is the library's handler for the registry.\<close>

definition new_server :: "handler \<Rightarrow> int \<Rightarrow> server option" where
  "new_server prom port =
     server_handle \<lparr>srv_mux = [], srv_addr = join_host_port '''' (itoa port),
        srv_read_header_timeout = 5 * second\<rparr> metrics_path prom"

definition server_addr :: "server \<Rightarrow> go_string" where
  "server_addr s = srv_addr s"

definition err_server_closed :: go_error where
  "err_server_closed = ErrorString ''http: Server closed''"

text \<open>\<open>ListenAndServe\<close>, given what the library's function of the name returns.\<close>

definition listen_and_serve :: "go_error \<Rightarrow> go_error option" where
  "listen_and_serve err = (if err = err_server_closed then None else Some err)"

section \<open>Self check\<close>

text \<open>
  \<open>SelfCheck\<close>: \<open>new_request\<close> and \<open>fetch\<close> are the HTTP client's, the latter answering a status
  or an error within the timeout.
\<close>

definition probe_url :: "int \<Rightarrow> go_string \<Rightarrow> go_string" where
  "probe_url port path = ''http://'' @ join_host_port ''127.0.0.1'' (itoa port) @ path"

definition self_check ::
  "(go_string \<Rightarrow> go_error option) \<Rightarrow> (duration \<Rightarrow> go_string \<Rightarrow> go_error + int) \<Rightarrow>
   int \<Rightarrow> go_string \<Rightarrow> duration \<Rightarrow> go_error option" where
  "self_check new_request fetch port path timeout =
     (let url = probe_url port path in
      case new_request url of
        Some e \<Rightarrow> Some (WrapError (''building probe request for '' @ url @ '': '') e)
      | None \<Rightarrow>
          (case fetch timeout url of
             Inl e \<Rightarrow> Some (WrapError (''probing '' @ url @ '': '') e)
           | Inr code \<Rightarrow>
               if code \<noteq> 200 then Some (ErrorString (url @ '' returned '' @ itoa code)) else None))"

end
