(* ===== verification/Http_Properties.thy ===== *)
theory Http_Properties
  imports Http_Server
begin

text \<open>
  The properties of the middleware and of the routes.
\<close>

text \<open>The operations that commit the response.\<close>

fun writes :: "write_op \<Rightarrow> bool" where
  "writes (SetHeader _ _) = False"
| "writes _ = True"

lemma recorder_fold:
  "sr_inner (fold recorder_op ops r) = sr_inner r @ ops"
  "sr_written (fold recorder_op ops r) = (sr_written r \<or> list_ex writes ops)"
proof (induction ops arbitrary: r)
  case (Cons op ops)
  case 1
  from Cons(1) [of "recorder_op op r"] show ?case by (cases op) (simp_all add: Let_def)
  case 2
  from Cons(2) [of "recorder_op op r"] show ?case by (cases op) (simp_all add: Let_def)
qed simp_all

lemma recorder_code_kept: "sr_written r \<Longrightarrow> sr_code (fold recorder_op ops r) = sr_code r"
proof (induction ops arbitrary: r)
  case (Cons op ops)
  then have "sr_written (recorder_op op r)" "sr_code (recorder_op op r) = sr_code r"
    by (cases op; simp add: Let_def)+
  with Cons show ?case by simp
qed simp

lemma client_status_append:
  "\<not> list_ex writes ops \<Longrightarrow> client_status (ops @ ops') = client_status ops'"
proof (induction ops)
  case (Cons op ops)
  then show ?case by (cases op) simp_all
qed simp

text \<open>Operations without an informational status.\<close>

definition final_only :: "write_op list \<Rightarrow> bool" where
  "final_only ops \<longleftrightarrow> (\<forall>c. WriteHeader c \<in> set ops \<longrightarrow> \<not> (100 \<le> c \<and> c < 200 \<and> c \<noteq> 101))"

lemma recorder_code_from:
  assumes "final_only ops" "\<not> sr_written r" "sr_code r = 200"
  shows "sr_code (fold recorder_op ops r) = client_status ops"
  using assms
proof (induction ops arbitrary: r)
  case (Cons op ops)
  have rest: "final_only ops" using Cons.prems(1) by (simp add: final_only_def)
  show ?case
  proof (cases op)
    case (SetHeader k v)
    with Cons.IH [OF rest, of "recorder_op op r"] Cons.prems show ?thesis by simp
  next
    case (WriteHeader c)
    with Cons.prems recorder_code_kept [of "recorder_op op r" ops] show ?thesis
      by (auto simp: final_only_def Let_def)
  next
    case (Write b)
    with Cons.prems recorder_code_kept [of "recorder_op op r" ops] show ?thesis
      by (simp add: Let_def)
  qed
qed simp

lemma recorder_code:
  "final_only ops \<Longrightarrow> sr_code (fold recorder_op ops new_recorder) = client_status ops"
  by (rule recorder_code_from) (simp_all add: new_recorder_def)

lemma mux_pattern: "snd (mux_handler mux r) = '''' \<or> snd (mux_handler mux r) \<in> fst ` set mux"
  by (auto simp: mux_handler_def Let_def split: option.splits dest!: map_of_SomeD intro: rev_image_eqI)

text \<open>The recorder when the handler is done, a panic handled, and what it then says.\<close>

definition recovered :: "handler_run \<Rightarrow> status_recorder" where
  "recovered run =
     (let rec = fold recorder_op (hr_ops run) new_recorder
      in if hr_panic run \<noteq> None \<and> \<not> sr_written rec then recorder_op (WriteHeader 500) rec else rec)"

lemma recovered_ops:
  "sr_inner (recovered run) =
     hr_ops run @ (if hr_panic run \<noteq> None \<and> \<not> list_ex writes (hr_ops run) then [WriteHeader 500] else [])"
  by (simp add: recovered_def recorder_fold new_recorder_def Let_def)

lemma recovered_code:
  assumes "final_only (hr_ops run)"
  shows "sr_code (recovered run) = client_status (sr_inner (recovered run))"
proof (cases "hr_panic run \<noteq> None \<and> \<not> list_ex writes (hr_ops run)")
  case True
  then show ?thesis
    by (simp add: recovered_def recorder_fold new_recorder_def Let_def client_status_append)
next
  case False
  then show ?thesis using recorder_code [OF assms]
    by (auto simp: recovered_def recorder_fold new_recorder_def Let_def)
qed

definition route_label :: "go_string \<Rightarrow> go_string" where
  "route_label pattern = (if pattern = '''' then route_unmatched else pattern)"

lemma observe_recovered:
  fixes mux r metrics drawn d base
  defines "sv \<equiv> observe mux metrics drawn d base r"
    and "rec \<equiv> recovered (fst (mux_handler mux r)
      (context_with_trace_id base (trace_id_for_request drawn (rq_traceparent r))) r)"
  shows "sv_ops sv = sr_inner rec"
    "sv_metrics sv = observe_http metrics (route_label (snd (mux_handler mux r))) (rq_method r) (sr_code rec) d"
  unfolding sv_def rec_def observe_def recovered_def route_label_def Let_def split_beta by simp_all

lemma observe_context:
  "sv_context (observe mux m drawn d base r) =
     context_with_trace_id base (trace_id_for_request drawn (rq_traceparent r))"
  by (simp add: observe_def Let_def split_beta)


definition crash :: handler where
  "crash ctx r = \<lparr>hr_ops = [], hr_panic = Some ''lost token=abc123''\<rparr>"

definition crash_request :: http_request where
  "crash_request = \<lparr>rq_method = ''GET'', rq_path = ''/metrics'', rq_headers = []\<rparr>"

definition no_metrics :: http_metrics where
  "no_metrics = \<lparr>hm_requests = (\<lambda>_. 0), hm_duration = (\<lambda>_. [])\<rparr>"


text \<open>
  C38: A well-formed \<open>traceparent\<close> header field is adopted, whatever the case of its
  name, its two-character version, its span and what follows, and whatever white space
  surrounds it: the handler runs, and the request is logged, in a context that carries the
  identifier of the header's second part, and the random source is not used. Of several such
  fields the first counts.
\<close>

theorem traceparent_adopted:
  assumes "rq_headers r = before @ (name, given) # after"
    and "map lower_byte name = traceparent_header"
    and "\<forall>(k, _) \<in> set before. canonical_key k \<noteq> canonical_key traceparent_header"
    and "trim_space given = v @ ''-'' @ s @ ''-'' @ span @ ''-'' @ flags"
    and "length v = 2" and "CHR ''-'' \<notin> set v" and "CHR ''-'' \<notin> set span"
    and "parse_trace_id s = Some t"
  shows "trace_id_from_context (sv_context (observe mux metrics rand elapsed base r)) = t \<and>
    observe mux metrics rand elapsed base r = observe mux metrics rand' elapsed base r"
proof -
  have "map lower_byte traceparent_header = traceparent_header" "list_all header_byte traceparent_header"
    by code_simp+
  with canonical_key_lower [of name traceparent_header] assms(2)
  have "canonical_key name = canonical_key traceparent_header" by simp
  then have "rq_traceparent r = given"
    using header_get_first [of before traceparent_header name given after] assms(3)
    by (auto simp: rq_traceparent_def assms(1))
  then have "trace_id_for_request rd (rq_traceparent r) = t" for rd
    using traceparent_second_field [OF assms(4-8)] by simp
  then show ?thesis
    by (simp add: observe_def Let_def split_beta trace_id_from_context_def context_with_trace_id_def)
qed

definition traced_request :: http_request where
  "traced_request =
     \<lparr>rq_method = ''GET'', rq_path = ''/metrics'',
      rq_headers = [(''Accept'', ''*/*''),
        (''TraceParent'', '' 00-4BF92F3577b34da6a3ce929d0e0e4736-00f067aa0ba902b7-01 '')]\<rparr>"

theorem traceparent_adopted_witness:
  "trace_id_string (trace_id_from_context (sv_context
     (observe [(metrics_path, crash)] no_metrics (\<lambda>n. replicate n 0) 5 background traced_request))) =
   ''4bf92f3577b34da6a3ce929d0e0e4736''"
proof -
  let ?s = "''4BF92F3577b34da6a3ce929d0e0e4736''"
  have parts: "trim_space '' 00-4BF92F3577b34da6a3ce929d0e0e4736-00f067aa0ba902b7-01 '' =
      ''00'' @ ''-'' @ ?s @ ''-'' @ ''00f067aa0ba902b7'' @ ''-'' @ ''01''"
    and name: "map lower_byte ''TraceParent'' = traceparent_header"
    and other: "canonical_key ''Accept'' \<noteq> canonical_key traceparent_header"
    and ok: "(case parse_trace_id ?s of Some t \<Rightarrow>
        trace_id_string t = ''4bf92f3577b34da6a3ce929d0e0e4736'' | None \<Rightarrow> False)"
    by code_simp+
  from ok obtain t where t: "parse_trace_id ?s = Some t"
    "trace_id_string t = ''4bf92f3577b34da6a3ce929d0e0e4736''"
    by (auto split: option.splits)
  have "rq_headers traced_request = [(''Accept'', ''*/*'')] @
      (''TraceParent'', '' 00-4BF92F3577b34da6a3ce929d0e0e4736-00f067aa0ba902b7-01 '') # []"
    by (simp add: traced_request_def)
  from traceparent_adopted [OF this name _ parts _ _ _ t(1)] other t(2) show ?thesis by simp
qed

text \<open>
  An informational status counts as the request's code, although the client goes on to get
  the final one.
\<close>

lemma informational_status_recorded:
  "sr_code (fold recorder_op [WriteHeader 103, WriteHeader 200] new_recorder) = 103 \<and>
   client_status [WriteHeader 103, WriteHeader 200] = 200"
  by code_simp

end
