(* ===== verification/Main_Program.thy ===== *)
theory Main_Program
  imports Config_Load Http_Server Health_Handler Health_Clients Lifecycle
begin

text \<open>
  \<open>cmd/api/main.go\<close> and \<open>cmd/worker/main.go\<close>, which differ in their defaults and in the
  service name of a configuration failure's record: the wiring of the components and the
  course of the process.
\<close>

section \<open>The two services\<close>

record service =
  svc_defaults :: service_defaults
  svc_report_name :: go_string

definition api_service :: service where
  "api_service = \<lparr>svc_defaults = api_defaults, svc_report_name = ''pulseflow-api''\<rparr>"

definition worker_service :: service where
  "worker_service = \<lparr>svc_defaults = worker_defaults, svc_report_name = ''pulseflow-worker''\<rparr>"

section \<open>Wiring\<close>

text \<open>The overridden version: the one injected at link time, unless that or the configured one is set.\<close>

definition override_version :: "go_string \<Rightarrow> config \<Rightarrow> config" where
  "override_version linked cfg =
     (if cfg_version cfg = ''dev'' \<and> linked \<noteq> ''dev'' then cfg\<lparr>cfg_version := linked\<rparr> else cfg)"

definition logger_options :: "config \<Rightarrow> log_options" where
  "logger_options cfg =
     \<lparr>opt_service = cfg_service_name cfg, opt_version = cfg_version cfg, opt_level = cfg_log_level cfg\<rparr>"

definition clickhouse_config_of :: "config \<Rightarrow> clickhouse_config" where
  "clickhouse_config_of cfg =
     \<lparr>chc_addr = cfg_clickhouse_addr cfg, chc_database = cfg_clickhouse_database cfg,
      chc_user = cfg_clickhouse_user cfg, chc_password = cfg_clickhouse_password cfg\<rparr>"

definition redis_config_of :: "config \<Rightarrow> redis_config" where
  "redis_config_of cfg = \<lparr>rdc_addr = cfg_redis_addr cfg, rdc_password = cfg_redis_password cfg\<rparr>"

text \<open>
  The checks of the three dependencies, as built from the configuration: \<open>checks\<close> stands for
  what their clients answer.
\<close>

definition readiness_options ::
  "(go_string \<Rightarrow> req_context \<Rightarrow> instant \<Rightarrow> go_error option \<times> duration) \<Rightarrow> config \<Rightarrow> aggregator_options" where
  "readiness_options checks cfg =
     \<lparr>ao_service = cfg_service_name cfg, ao_version = cfg_version cfg,
      ao_checkers = map (\<lambda>n. \<lparr>ck_name = n, ck_check = checks n\<rparr>)
        [dependency_kafka, dependency_clickhouse, dependency_redis],
      ao_timeout = cfg_health_check_timeout cfg, ao_cache_ttl = cfg_health_cache_ttl cfg,
      ao_metrics = True\<rparr>"

definition run_of_response :: "response \<Rightarrow> handler_run" where
  "run_of_response rsp =
     \<lparr>hr_ops = map (\<lambda>(k, v). SetHeader k v) (rsp_headers rsp) @
        [WriteHeader (rsp_code rsp), Write (rsp_body rsp)], hr_panic = None\<rparr>"

definition live_route :: "config \<Rightarrow> handler" where
  "live_route cfg ctx r = run_of_response (liveness_handler (cfg_service_name cfg) (cfg_version cfg))"

text \<open>
  Registry, server, routes and metrics, in the order of \<open>run\<close>: \<open>None\<close> if a registration
  panics. \<open>ready\<close> is the readiness handler, which keeps the aggregator's state.
\<close>

definition wire ::
  "go_string \<Rightarrow> go_string \<Rightarrow> (registry \<Rightarrow> handler) \<Rightarrow> handler \<Rightarrow> config \<Rightarrow>
   (server \<times> http_metrics \<times> dependency_metrics \<times> registry) option" where
  "wire go_version commit prom ready cfg =
     (case new_registry go_version \<lparr>bi_version = cfg_version cfg, bi_commit = commit\<rparr> of
        None \<Rightarrow> None
      | Some reg \<Rightarrow>
      (case new_http_metrics reg of
        None \<Rightarrow> None
      | Some (hm, reg) \<Rightarrow>
      (case new_server (prom reg) (cfg_http_port cfg) of
        None \<Rightarrow> None
      | Some srv \<Rightarrow>
      (case server_handle srv live_path (live_route cfg) of
        None \<Rightarrow> None
      | Some srv \<Rightarrow>
      (case new_dependency_metrics reg of
        None \<Rightarrow> None
      | Some (dm, reg) \<Rightarrow>
      (case server_handle srv ready_path ready of
        None \<Rightarrow> None
      | Some srv \<Rightarrow> Some (srv, hm, dm, reg)))))))"

text \<open>No registration fails, whatever the readiness handler is.\<close>

lemma wire_eq:
  "\<exists>reg0 reg1. distinct (rg_names reg1) \<and>
     (\<forall>ready. wire go_version commit prom ready cfg = Some
       (\<lparr>srv_mux = [(metrics_path, prom reg0), (live_path, live_route cfg), (ready_path, ready)],
         srv_addr = join_host_port '''' (itoa (cfg_http_port cfg)), srv_read_header_timeout = 5 * second\<rparr>,
        \<lparr>hm_requests = (\<lambda>_. 0), hm_duration = (\<lambda>_. [])\<rparr>,
        \<lparr>dm_up = Map.empty, dm_duration = (\<lambda>_. []), dm_buckets = dependency_buckets\<rparr>, reg1))"
  by (simp add: wire_def new_registry_def must_register_def new_http_metrics_def new_server_def
      server_handle_def new_dependency_metrics_def fq_name_def namespace_def metrics_path_def
      live_path_def ready_path_def new_histogram_def dependency_buckets_def) (rule exI, rule refl)

section \<open>The process\<close>

datatype stream = Stdout | Stderr

datatype action =
    Log stream log_options log_event
  | ProbeSelf go_string
  | Listen
  | StartStep go_string

text \<open>
  The three dependency clients as the shutdown finds them (a client is known by a number),
  and the close functions of their libraries.
\<close>

record clients =
  cls_kafka :: "nat kafka_checker"
  cls_clickhouse :: "nat clickhouse_checker"
  cls_redis :: "nat redis_checker"
  cls_close_clickhouse :: "nat \<Rightarrow> go_error option"
  cls_close_redis :: "nat \<Rightarrow> go_error option"

text \<open>
  What the process meets: its environment and build, its flag, the self check's client,
  when startup is over and looks for a signal, when the library's \<open>ListenAndServe\<close> returns
  and with which error, if it does by itself, the server's own shutdown, the clients, and the
  signals and the steps of the goroutines that handle them, after \<open>Signals\<close> was called.
\<close>

record circumstances =
  ci_env :: env
  ci_linked_version :: go_string
  ci_healthcheck :: bool
  ci_new_request :: "go_string \<Rightarrow> go_error option"
  ci_fetch :: "duration \<Rightarrow> go_string \<Rightarrow> go_error + int"
  ci_checked_at :: instant
  ci_server_error :: "(instant \<times> go_error) option"
  ci_server_shutdown :: "instant \<Rightarrow> instant \<Rightarrow> go_error option \<times> duration option"
  ci_clients :: clients
  ci_signals :: schedule

text \<open>A finished process: what it did, the error \<open>run\<close> returned, the exit code.\<close>

record finished =
  fi_actions :: "action list"
  fi_error :: "go_error option"
  fi_exit :: int

text \<open>\<open>errors.Join\<close>.\<close>

definition errors_join :: "go_error option list \<Rightarrow> go_error option" where
  "errors_join es =
     (let es' = concat (map (\<lambda>e. case e of None \<Rightarrow> [] | Some x \<Rightarrow> [x]) es)
      in if es' = [] then None else Some (JoinError es'))"

text \<open>The logger of \<open>reportConfigFailure\<close>, and the record it writes.\<close>

definition report_options :: "service \<Rightarrow> go_string \<Rightarrow> log_options" where
  "report_options svc linked =
     \<lparr>opt_service = svc_report_name svc, opt_version = linked, opt_level = ''error''\<rparr>"

definition report_config_failure :: "(int \<Rightarrow> bool) \<Rightarrow> validation_error \<Rightarrow> log_event" where
  "report_config_failure is_print e =
     (level_error, ''config_validation_failed'',
      [(''errors'', VStrings (error_messages is_print e)), (''fields'', VStrings (error_fields e))])"

definition service_started :: "config \<Rightarrow> log_event" where
  "service_started cfg =
     (level_info, ''service_started'',
      [(''port'', VInt (cfg_http_port cfg)), (''environment'', VString (cfg_environment cfg)),
       (''config'', VString (log_value cfg))])"

definition close_clients :: "clients \<Rightarrow> go_error option" where
  "close_clients cls = errors_join
     [fst (kafka_close (cls_kafka cls)),
      fst (clickhouse_close (cls_close_clickhouse cls) (cls_clickhouse cls)),
      fst (redis_close (cls_close_redis cls) (cls_redis cls))]"

text \<open>What a step does to the readiness aggregator: the gate closes it.\<close>

definition step_effect :: "go_string \<Rightarrow> aggregator \<Rightarrow> aggregator" where
  "step_effect name a = (if name = ''readiness_gate'' then begin_shutdown a else a)"

definition shutdown_steps :: "circumstances \<Rightarrow> shutdown_step list" where
  "shutdown_steps ci =
     [\<lparr>step_name = ''readiness_gate'', step_fn = (\<lambda>_ _. (None, Some 0))\<rparr>,
      \<lparr>step_name = ''http_server'', step_fn = ci_server_shutdown ci\<rparr>,
      \<lparr>step_name = ''dependency_clients'',
       step_fn = (\<lambda>_ _. (close_clients (ci_clients ci), Some 0))\<rparr>]"

text \<open>\<open>main\<close>: an error is printed and the process exits with 1.\<close>

definition finish :: "action list \<Rightarrow> go_error option \<Rightarrow> finished" where
  "finish as err = \<lparr>fi_actions = as, fi_error = err, fi_exit = (if err = None then 0 else 1)\<rparr>"

text \<open>
  The steps that begin no later than the instant at which \<open>Shutdown\<close> is over.
\<close>

definition steps_until :: "instant \<Rightarrow> (go_string \<times> instant) list \<Rightarrow> action list" where
  "steps_until t starts = map (\<lambda>(n, _). StartStep n) (takeWhile (\<lambda>(_, u). u \<le> t) starts)"

definition finish_shutdown ::
  "log_options \<Rightarrow> action list \<Rightarrow> (go_string \<times> instant) list \<Rightarrow> outcome \<Rightarrow> finished" where
  "finish_shutdown lo as starts oc =
     (let as' = as @ [Log Stdout lo (hd (oc_events oc))] @ steps_until (oc_at oc) starts @
            map (Log Stdout lo) (tl (oc_events oc))
      in case oc_exit oc of
           Some c \<Rightarrow> \<lparr>fi_actions = as', fi_error = oc_error oc, fi_exit = c\<rparr>
         | None \<Rightarrow> finish as' (oc_error oc))"

definition run_shutdown :: "circumstances \<Rightarrow> config \<Rightarrow> action list \<Rightarrow> instant \<Rightarrow> finished list" where
  "run_shutdown ci cfg as t =
     (let opts = \<lparr>so_grace_period = cfg_shutdown_grace_period cfg, so_signal = ''SIGTERM'',
            so_second = second_signal [] (ci_signals ci)\<rparr>;
          steps = shutdown_steps ci;
          starts = fst (run_steps steps (t + cfg_shutdown_grace_period cfg) t)
      in map (finish_shutdown (logger_options cfg) as starts) (shutdown opts steps t))"

text \<open>The context from \<open>Signals\<close>.\<close>

definition process_context :: "circumstances \<Rightarrow> req_context" where
  "process_context ci = signal_context [] (ci_signals ci)"

text \<open>
  The wait for the server's error or the end of the context: a list of what the \<open>select\<close> may
  take, empty if neither comes.
\<close>

definition process_waits :: "circumstances \<Rightarrow> (go_error + instant) list" where
  "process_waits ci =
     (case (ci_server_error ci, cx_canceled (process_context ci)) of
        (None, None) \<Rightarrow> []
      | (Some (_, err), None) \<Rightarrow> [Inl err]
      | (None, Some t) \<Rightarrow> [Inr t]
      | (Some (u, err), Some t) \<Rightarrow>
          if u < t then [Inl err] else if t < u then [Inr t] else [Inl err, Inr t])"

text \<open>
  \<open>main\<close> and \<open>run\<close>: every way the process may end, none if it is left to serve for good.
\<close>

definition run_process :: "(int \<Rightarrow> bool) \<Rightarrow> service \<Rightarrow> circumstances \<Rightarrow> finished list" where
  "run_process is_print svc ci =
     (case load (ci_env ci) (svc_defaults svc) of
        Inl e \<Rightarrow> [finish [Log Stderr (report_options svc (ci_linked_version ci)) (report_config_failure is_print e)]
                     (Some (ErrorString (error_message is_print e)))]
      | Inr cfg0 \<Rightarrow>
          (let cfg = override_version (ci_linked_version ci) cfg0; lo = logger_options cfg in
           if ci_healthcheck ci
           then [finish [ProbeSelf (probe_url (cfg_http_port cfg) ready_path)]
                   (self_check (ci_new_request ci) (ci_fetch ci) (cfg_http_port cfg) ready_path (3 * second))]
           else if aborted (process_context ci) (ci_checked_at ci)
           then [finish [Log Stdout lo (level_info, ''startup_aborted'', [])] None]
           else
             (let as = [Listen, Log Stdout lo (service_started cfg)] in
              concat (map (\<lambda>w. case w of
                Inl err \<Rightarrow> [finish as (listen_and_serve err)]
              | Inr t \<Rightarrow> run_shutdown ci cfg as t) (process_waits ci)))))"

text \<open>The two binaries.\<close>

definition api_main :: "(int \<Rightarrow> bool) \<Rightarrow> circumstances \<Rightarrow> finished list" where
  "api_main is_print ci = run_process is_print api_service ci"

definition worker_main :: "(int \<Rightarrow> bool) \<Rightarrow> circumstances \<Rightarrow> finished list" where
  "worker_main is_print ci = run_process is_print worker_service ci"

end
