(* ===== verification/Service.thy ===== *)
theory Service
  imports Main_Program Http_Properties
begin

text \<open>
  The service while it runs: the components that \<open>cmd/api/main.go\<close> and
  \<open>cmd/worker/main.go\<close> wire together, working on one state. A request passes the middleware
  of \<open>Http_Server\<close>; the readiness route asks the aggregator of \<open>Health_Aggregate\<close>, whose checkers
  are the clients of \<open>Health_Clients\<close>; metrics and log lines end up in the metrics of
  \<open>Observability\<close> and on the standard output.
\<close>

section \<open>The checkers\<close>

text \<open>
  What the client libraries do: build a client, and answer a request made with a client
  under a context at an instant, with the time it takes.
\<close>

record libraries =
  lb_kafka_new :: "go_string list \<Rightarrow> go_error + nat"
  lb_kafka_metadata :: "nat option \<Rightarrow> req_context \<Rightarrow> instant \<Rightarrow> go_error option \<times> duration"
  lb_clickhouse_open :: "clickhouse_options \<Rightarrow> go_error + nat"
  lb_clickhouse_ping :: "nat option \<Rightarrow> req_context \<Rightarrow> instant \<Rightarrow> go_error option \<times> duration"
  lb_redis_new :: "redis_options \<Rightarrow> nat"
  lb_redis_ping :: "nat option \<Rightarrow> req_context \<Rightarrow> instant \<Rightarrow> go_error option \<times> duration"

text \<open>
  \<open>Check\<close> of each checker in a given state of its client; building a client takes no time.
\<close>

definition kafka_probe ::
  "libraries \<Rightarrow> nat kafka_checker \<Rightarrow> req_context \<Rightarrow> instant \<Rightarrow> go_error option \<times> duration" where
  "kafka_probe lb c ctx t =
     (let c' = kafka_init (lb_kafka_new lb) c in
      (fst (kafka_check (lb_kafka_new lb) (\<lambda>cl. fst (lb_kafka_metadata lb cl ctx t)) c),
       if kc_init_err c' = None then snd (lb_kafka_metadata lb (kc_client c') ctx t) else 0))"

definition clickhouse_probe ::
  "libraries \<Rightarrow> nat clickhouse_checker \<Rightarrow> req_context \<Rightarrow> instant \<Rightarrow> go_error option \<times> duration" where
  "clickhouse_probe lb c ctx t =
     (let c' = clickhouse_init (lb_clickhouse_open lb) c in
      (fst (clickhouse_check (lb_clickhouse_open lb) (\<lambda>cl. fst (lb_clickhouse_ping lb cl ctx t)) c),
       if cc_init_err c' = None then snd (lb_clickhouse_ping lb (cc_conn c') ctx t) else 0))"

definition redis_probe ::
  "libraries \<Rightarrow> nat redis_checker \<Rightarrow> req_context \<Rightarrow> instant \<Rightarrow> go_error option \<times> duration" where
  "redis_probe lb c ctx t =
     (let c' = redis_init (lb_redis_new lb) c in
      (fst (redis_check (lb_redis_new lb) (\<lambda>cl. fst (lb_redis_ping lb cl ctx t)) c),
       snd (lb_redis_ping lb (rc_client c') ctx t)))"

text \<open>
  The checks as \<open>run\<close> hands them to the aggregator, with clients that are not yet built.
\<close>

definition dependency_checks ::
  "libraries \<Rightarrow> config \<Rightarrow> go_string \<Rightarrow> req_context \<Rightarrow> instant \<Rightarrow> go_error option \<times> duration" where
  "dependency_checks lb cfg name =
     (if name = dependency_kafka then kafka_probe lb (new_kafka_checker (cfg_kafka_brokers cfg))
      else if name = dependency_clickhouse
      then clickhouse_probe lb (new_clickhouse_checker (clickhouse_config_of cfg))
      else redis_probe lb (new_redis_checker (redis_config_of cfg)))"

text \<open>
  Whether a client has been built before makes no difference to what a check answers, so
  the checkers with unbuilt clients stand for the checkers at any time.
\<close>

lemma probes_after_checks:
  "kafka_probe lb (kafka.run_checks (lb_kafka_new lb) reqs c) = kafka_probe lb c"
  "clickhouse_probe lb (clickhouse.run_checks (lb_clickhouse_open lb) creqs cc) = clickhouse_probe lb cc"
  "redis_probe lb (redis.run_checks (lb_redis_new lb) rreqs rc) = redis_probe lb rc"
  by (simp_all add: fun_eq_iff kafka_probe_def clickhouse_probe_def redis_probe_def Let_def
      kafka.check_after_checks clickhouse.check_after_checks redis.check_after_checks)

section \<open>State\<close>

record running =
  rn_config :: config
  rn_logger :: context_handler
  rn_prom :: handler
  rn_aggregator :: aggregator
  rn_http :: http_metrics
  rn_deps :: dependency_metrics
  rn_output :: "go_string list"

text \<open>
  The routes \<open>run\<close> registers; \<open>ready\<close> is the readiness handler in its present state.
\<close>

definition service_mux :: "running \<Rightarrow> handler \<Rightarrow> serve_mux" where
  "service_mux rn ready =
     [(metrics_path, rn_prom rn), (live_path, live_route (rn_config rn)), (ready_path, ready)]"

definition start_service ::
  "go_string \<Rightarrow> go_string \<Rightarrow> (registry \<Rightarrow> handler) \<Rightarrow> libraries \<Rightarrow> config \<Rightarrow> running option" where
  "start_service go_version commit prom lb cfg =
     map_option (\<lambda>(srv, hm, dm, reg).
        \<lparr>rn_config = cfg, rn_logger = new_logger (logger_options cfg),
         rn_prom = the (map_of (srv_mux srv) metrics_path),
         rn_aggregator = new_aggregator (readiness_options (dependency_checks lb cfg) cfg),
         rn_http = hm, rn_deps = dm, rn_output = []\<rparr>)
       (wire go_version commit prom not_found cfg)"

section \<open>Requests\<close>

text \<open>
  A request as it comes in: when, the random source if it brings no identifier, when its
  sender goes away, and the time it takes besides the checks it may have to wait for.
\<close>

record incoming =
  in_at :: instant
  in_request :: http_request
  in_random :: "nat \<Rightarrow> 8 word list"
  in_canceled :: "instant option"
  in_overhead :: duration

definition request_trace_id :: "incoming \<Rightarrow> trace_id" where
  "request_trace_id q = trace_id_for_request (in_random q) (rq_traceparent (in_request q))"

definition request_context :: "incoming \<Rightarrow> req_context" where
  "request_context q =
     \<lparr>cx_log = context_with_trace_id background (request_trace_id q), cx_deadline = None,
      cx_canceled = in_canceled q\<rparr>"

fun observe_check :: "effect \<Rightarrow> dependency_metrics \<Rightarrow> dependency_metrics" where
  "observe_check (RecordCheck name healthy d) m = record_dependency_check m name healthy d"
| "observe_check (LogEvent _ _ _ _) m = m"

fun effect_lines :: "context_handler \<Rightarrow> instant \<Rightarrow> effect \<Rightarrow> go_string list" where
  "effect_lines h t (RecordCheck _ _ _) = []"
| "effect_lines h t (LogEvent ctx l msg as) =
     (case log_at h (cx_log ctx) t l msg as of None \<Rightarrow> [] | Some line \<Rightarrow> [line])"

definition event_lines :: "context_handler \<Rightarrow> log_context \<Rightarrow> instant \<Rightarrow> log_event \<Rightarrow> go_string list" where
  "event_lines h ctx t ev =
     (case ev of (l, msg, as) \<Rightarrow> (case log_at h ctx t l msg as of None \<Rightarrow> [] | Some line \<Rightarrow> [line]))"

text \<open>What the effects of the aggregator, each with its instant, do to metrics and log.\<close>

definition record_effects :: "(instant \<times> effect) list \<Rightarrow> running \<Rightarrow> running" where
  "record_effects tes rn =
     rn\<lparr>rn_deps := fold observe_check (map snd tes) (rn_deps rn),
        rn_output := rn_output rn @ concat (map (\<lambda>(t, e). effect_lines (rn_logger rn) t e) tes)\<rparr>"

text \<open>
  The middleware around a request, when the aggregator's answer, if the request asks for it,
  is \<open>result\<close>: what is written to the client, and what is observed and logged.
\<close>

definition finish_request ::
  "health_result \<Rightarrow> incoming \<Rightarrow> duration \<Rightarrow> instant \<Rightarrow> running \<Rightarrow> write_op list \<times> running" where
  "finish_request result q elapsed finished rn =
     (let mux = service_mux rn (\<lambda>_ _. run_of_response (readiness_response result));
          sv = observe mux (rn_http rn) (in_random q) elapsed background (in_request q)
      in (sv_ops sv,
          rn\<lparr>rn_http := sv_metrics sv,
             rn_output := rn_output rn @
               concat (map (event_lines (rn_logger rn) (sv_context sv) finished) (sv_events sv))\<rparr>))"

text \<open>
  One request through the whole service: what is written to the client, and the new state.
  The aggregator is asked only if the request is for the readiness route.
\<close>

definition serve_request :: "running \<Rightarrow> incoming \<Rightarrow> write_op list \<times> running" where
  "serve_request rn q =
     (let t = in_at q; ctx = request_context q;
          (result, es, a) = evaluate ctx t (rn_aggregator rn);
          mux = service_mux rn (\<lambda>_ _. run_of_response (readiness_response result));
          probed = (mux_route mux (in_request q) = Some ready_path);
          (es, a, answered) = (if probed then (es, a, answer_time ctx t (rn_aggregator rn))
                               else ([], rn_aggregator rn, t));
          finished = answered + in_overhead q
      in finish_request result q (finished - t) finished
           (record_effects (map (Pair answered) es) (rn\<lparr>rn_aggregator := a\<rparr>)))"

definition close_gate :: "running \<Rightarrow> running" where
  "close_gate rn = rn\<lparr>rn_aggregator := step_effect ''readiness_gate'' (rn_aggregator rn)\<rparr>"

text \<open>What happens to a service: requests, and the first step of its shutdown.\<close>

datatype happening = Request incoming | CloseGate

fun serve_all :: "happening list \<Rightarrow> running \<Rightarrow> (incoming \<times> write_op list) list \<times> running" where
  "serve_all [] rn = ([], rn)"
| "serve_all (Request q # hs) rn =
     (let (ops, rn) = serve_request rn q; (rest, rn) = serve_all hs rn in ((q, ops) # rest, rn))"
| "serve_all (CloseGate # hs) rn =
     serve_all hs (close_gate rn)"

section \<open>One request\<close>

named_theorems serve_simps

lemma record_effects_simps [serve_simps]:
  "rn_config (record_effects tes rn) = rn_config rn" "rn_logger (record_effects tes rn) = rn_logger rn"
  "rn_prom (record_effects tes rn) = rn_prom rn" "rn_http (record_effects tes rn) = rn_http rn"
  "rn_aggregator (record_effects tes rn) = rn_aggregator rn"
  "rn_deps (record_effects tes rn) = fold observe_check (map snd tes) (rn_deps rn)"
  "rn_output (record_effects tes rn) =
     rn_output rn @ concat (map (\<lambda>(t, e). effect_lines (rn_logger rn) t e) tes)"
  "service_mux (record_effects tes rn) h = service_mux rn h"
  "service_mux (rn\<lparr>rn_aggregator := a\<rparr>) h = service_mux rn h"
  by (simp_all add: record_effects_def service_mux_def)

lemma finish_request_simps [serve_simps]:
  "rn_config (snd (finish_request r q d t rn)) = rn_config rn"
  "rn_logger (snd (finish_request r q d t rn)) = rn_logger rn"
  "rn_prom (snd (finish_request r q d t rn)) = rn_prom rn"
  "rn_aggregator (snd (finish_request r q d t rn)) = rn_aggregator rn"
  "rn_deps (snd (finish_request r q d t rn)) = rn_deps rn"
  by (simp_all add: finish_request_def Let_def)

lemma request_context_simps [serve_simps]:
  "cx_log (request_context q) = context_with_trace_id background (request_trace_id q)"
  by (simp add: request_context_def)

definition asks_readiness :: "incoming \<Rightarrow> bool" where
  "asks_readiness q \<longleftrightarrow> rq_path (in_request q) = ready_path"

lemma clean_paths [serve_simps]:
  "clean_path ready_path = ready_path" "clean_path live_path = live_path"
  "clean_path metrics_path = metrics_path"
  by code_simp+

lemma paths_distinct [serve_simps]:
  "ready_path \<noteq> live_path" "live_path \<noteq> ready_path" "ready_path \<noteq> metrics_path"
  "metrics_path \<noteq> ready_path" "live_path \<noteq> metrics_path" "metrics_path \<noteq> live_path"
  "ready_path \<noteq> []" "live_path \<noteq> []" "metrics_path \<noteq> []"
  by (simp_all add: ready_path_def live_path_def metrics_path_def)

lemma route_ready [serve_simps]:
  "mux_route (service_mux rn h) (in_request q) = Some ready_path \<longleftrightarrow> asks_readiness q"
  by (auto simp: mux_route_def service_mux_def asks_readiness_def serve_simps)

lemma serve_request_simps [serve_simps]:
  "rn_config (snd (serve_request rn q)) = rn_config rn"
  "rn_logger (snd (serve_request rn q)) = rn_logger rn"
  "rn_prom (snd (serve_request rn q)) = rn_prom rn"
  "rn_aggregator (snd (serve_request rn q)) =
     (if asks_readiness q then snd (snd (evaluate (request_context q) (in_at q) (rn_aggregator rn)))
      else rn_aggregator rn)"
  "rn_deps (snd (serve_request rn q)) =
     (if asks_readiness q
      then fold observe_check (fst (snd (evaluate (request_context q) (in_at q) (rn_aggregator rn)))) (rn_deps rn)
      else rn_deps rn)"
  by (simp_all add: serve_request_def Let_def split_beta serve_simps comp_def)

definition response_ops :: "response \<Rightarrow> write_op list" where
  "response_ops rsp = map (\<lambda>(k, v). SetHeader k v) (rsp_headers rsp) @
     [WriteHeader (rsp_code rsp), Write (rsp_body rsp)]"

lemma observe_response:
  assumes "fst (mux_handler mux r) = (\<lambda>_ _. run_of_response rsp)"
  shows "sv_ops (observe mux m drawn d base r) = response_ops rsp"
  by (simp add: observe_recovered recovered_ops assms run_of_response_def response_ops_def)

text \<open>What the two health routes write, \<open>res\<close> being the aggregator's answer.\<close>

lemma finish_ready:
  assumes "asks_readiness q"
  shows "fst (finish_request res q d t rn) = response_ops (readiness_response res)"
  using assms
  by (simp add: finish_request_def Let_def observe_response mux_handler_def service_mux_def
      asks_readiness_def serve_simps)

lemma finish_live:
  assumes "rq_path (in_request q) = live_path"
  shows "fst (finish_request res q d t rn) =
    response_ops (liveness_handler (cfg_service_name (rn_config rn)) (cfg_version (rn_config rn)))"
  using assms
  by (simp add: finish_request_def Let_def observe_response mux_handler_def service_mux_def
      live_route_def [abs_def] serve_simps)

lemma serve_ready [serve_simps]:
  assumes "asks_readiness q"
  shows "fst (serve_request rn q) = response_ops (fst (readiness_handler (request_context q) (in_at q) (rn_aggregator rn)))"
  by (simp add: serve_request_def Let_def split_beta finish_ready [OF assms] readiness_handler_def)

lemma serve_live [serve_simps]:
  assumes "rq_path (in_request q) = live_path"
  shows "fst (serve_request rn q) = response_ops (liveness_handler (cfg_service_name (rn_config rn))
    (cfg_version (rn_config rn)))"
  by (simp add: serve_request_def Let_def split_beta finish_live [OF assms] serve_simps)

section \<open>Sequences\<close>

lemma serve_all_invariant:
  assumes "\<And>rn q. I rn \<Longrightarrow> I (snd (serve_request rn q)) \<and> P q (fst (serve_request rn q))"
    and "\<And>rn. I rn \<Longrightarrow> I (close_gate rn)" and "I rn"
  shows "I (snd (serve_all hs rn)) \<and> list_all (\<lambda>(q, ops). P q ops) (fst (serve_all hs rn))"
  using assms(3)
proof (induction hs rn rule: serve_all.induct)
  case (2 q hs rn)
  from assms(1) [OF 2(2), of q] 2(1) [OF refl prod.collapse] show ?case
    by (simp add: split_beta Let_def)
next
  case (3 hs rn)
  with assms(2) show ?case by simp
qed simp

end
