(* ===== verification/Service_Properties.thy ===== *)
theory Service_Properties
  imports Service Readiness_Properties Log_Properties Config_Properties
begin

text \<open>
  The properties of the running service, from its start and over any sequence of requests:
  what is on its log lines, what its metrics show, and what its two health endpoints answer.
\<close>

section \<open>Start\<close>

lemma started:
  assumes "start_service gv commit prom lb cfg = Some rn"
  shows "rn_config rn = cfg" "rn_logger rn = new_logger (logger_options cfg)"
    "rn_aggregator rn = new_aggregator (readiness_options (dependency_checks lb cfg) cfg)"
    "rn_http rn = \<lparr>hm_requests = (\<lambda>_. 0), hm_duration = (\<lambda>_. [])\<rparr>"
    "rn_deps rn = \<lparr>dm_up = Map.empty, dm_duration = (\<lambda>_. []), dm_buckets = dependency_buckets\<rparr>" "rn_output rn = []"
  using assms wire_eq [of gv commit prom cfg] by (auto simp: start_service_def)

lemma wired_routes:
  assumes "start_service gv commit prom lb cfg = Some rn"
    and "wire gv commit prom ready cfg = Some (srv, hm, dm, reg)"
  shows "srv_mux srv = service_mux rn ready"
  using assms wire_eq [of gv commit prom cfg] by (auto simp: start_service_def service_mux_def)

text \<open>The metrics endpoint is the library's, over the registry of the service.\<close>

lemma started_prom:
  "start_service gv commit prom lb cfg = Some rn \<Longrightarrow> \<exists>reg. rn_prom rn = prom reg"
  using wire_eq [of gv commit prom cfg] by (fastforce simp: start_service_def)

lemma service_starts: "\<exists>rn. start_service gv commit prom lb cfg = Some rn"
  using wire_eq [of gv commit prom cfg] by (auto simp: start_service_def)

text \<open>A service with its default configuration, for the examples below.\<close>

definition flaky_libraries :: libraries where
  "flaky_libraries =
     \<lparr>lb_kafka_new = (\<lambda>_. Inl (ErrorString ''no seed brokers'')), lb_kafka_metadata = (\<lambda>_ _ _. (None, 0)),
      lb_clickhouse_open = (\<lambda>_. Inr 1), lb_clickhouse_ping = (\<lambda>_ _ _. (None, 5)),
      lb_redis_new = (\<lambda>_. 2), lb_redis_ping = (\<lambda>_ _ _. (Some CtxDeadlineExceeded, 7))\<rparr>"

definition example_service :: "running option" where
  "example_service = start_service ''go1.25'' ''unknown'' (\<lambda>_. not_found) flaky_libraries
     (default_config api_defaults)"

definition example_request :: "go_string \<Rightarrow> incoming" where
  "example_request path =
     \<lparr>in_at = 1000, in_request = \<lparr>rq_method = ''GET'', rq_path = path, rq_headers = []\<rparr>,
      in_random = (\<lambda>n. replicate (n - 1) 0 @ [1]), in_canceled = None, in_overhead = 3\<rparr>"

lemma example_starts: obtains rn where "example_service = Some rn"
  unfolding example_service_def using service_starts by blast

section \<open>Log lines\<close>

text \<open>The line of a record at \<open>t\<close>, with the members of the log contract.\<close>

definition service_line ::
  "log_options \<Rightarrow> trace_id \<Rightarrow> instant \<Rightarrow> level \<Rightarrow> go_string \<Rightarrow> attr list \<Rightarrow> go_string" where
  "service_line opts tid t l msg as =
     render slog_escaping (JObj
       ([(''time'', JStr (format_millis t)), (''level'', JStr (level_string l)), (''msg'', JStr msg),
         (''service'', JStr (opt_service opts)), (''version'', JStr (opt_version opts))] @
        map (\<lambda>a. field_of (replace_attr [] a)) as @ [(''trace_id'', JStr (trace_id_string tid))])) @ [CHR 0x0A]"

definition line_of_request :: "log_options \<Rightarrow> trace_id \<Rightarrow> go_string \<Rightarrow> bool" where
  "line_of_request opts tid line \<longleftrightarrow> (\<exists>t l msg as. line = service_line opts tid t l msg as)"

lemma log_at_service_line:
  "log_at (new_logger opts) ctx t l msg as = Some line \<Longrightarrow>
     line_of_request opts (trace_id_from_context ctx) line"
  by (auto simp: record_line line_of_request_def service_line_def split: if_splits)

lemma evaluate_now_context:
  "LogEvent ctx' l msg as \<in> set (fst (snd (evaluate_now ctx t a))) \<Longrightarrow> ctx' = ctx"
proof -
  have "ctx' = ctx" if "LogEvent ctx' l msg as \<in> set (snd (report m ctx sts (s, [])))" for m sts s
    using that by (auto simp: report_snd failure_event_def split: if_splits)
  then show "LogEvent ctx' l msg as \<in> set (fst (snd (evaluate_now ctx t a))) \<Longrightarrow> ctx' = ctx"
    by (auto simp: evaluate_now_def Let_def split_beta simp del: report.simps)
qed

lemma round_effects_context:
  "LogEvent ctx' l msg as \<in> set (fst (snd (evaluate ctx t a))) \<Longrightarrow> ctx' = ctx"
  using evaluate_now_context
  by (auto simp: evaluate_def flight_def split_beta Let_def simp del: evaluate_now_simps
      split: if_splits option.splits)

lemma effect_lines_of_request:
  assumes "\<And>ctx' l msg as. LogEvent ctx' l msg as \<in> set es \<Longrightarrow> ctx' = ctx"
  shows "list_all (line_of_request opts (trace_id_from_context (cx_log ctx)))
    (concat (map (effect_lines (new_logger opts) t) es))"
proof -
  have "list_all (line_of_request opts (trace_id_from_context (cx_log ctx)))
      (effect_lines (new_logger opts) t e)" if "e \<in> set es" for e
  proof (cases e)
    case (LogEvent ctx' l msg as)
    with that assms have "ctx' = ctx" by blast
    with LogEvent show ?thesis by (auto dest: log_at_service_line split: option.splits)
  qed simp
  then show ?thesis by (auto simp: list_all_iff)
qed

lemma event_lines_of_request:
  "list_all (line_of_request opts (trace_id_from_context ctx))
     (concat (map (event_lines (new_logger opts) ctx t) evs))"
  by (auto simp: list_all_iff event_lines_def dest!: log_at_service_line [OF sym] split: option.splits)

lemma context_trace_id: "trace_id_from_context (context_with_trace_id ctx t) = t"
  by (simp add: trace_id_from_context_def context_with_trace_id_def)

text \<open>The lines of a round that a request leads, and those of the request itself.\<close>

lemma record_effects_lines:
  assumes "rn_logger rn = new_logger opts"
    and "\<forall>ctx' l msg as. LogEvent ctx' l msg as \<in> set es \<longrightarrow> ctx' = request_context q"
  shows "\<exists>lines. rn_output (record_effects (map (Pair t) es) rn) = rn_output rn @ lines \<and>
    list_all (line_of_request opts (request_trace_id q)) lines"
  using effect_lines_of_request [of es "request_context q" opts t] assms(2)
  by (simp add: serve_simps assms(1) comp_def context_trace_id)

lemma finish_request_lines:
  assumes "rn_logger rn = new_logger opts"
  shows "\<exists>lines. rn_output (snd (finish_request r q d t rn)) = rn_output rn @ lines \<and>
    list_all (line_of_request opts (request_trace_id q)) lines"
  using event_lines_of_request [of opts "context_with_trace_id background (request_trace_id q)" t]
  by (simp add: finish_request_def Let_def assms observe_context request_trace_id_def [symmetric]
      context_trace_id)

lemma serve_request_lines:
  assumes "rn_logger rn = new_logger opts"
  shows "\<exists>lines. rn_output (snd (serve_request rn q)) = rn_output rn @ lines \<and>
    list_all (line_of_request opts (request_trace_id q)) lines"
proof -
  let ?ev = "evaluate (request_context q) (in_at q) (rn_aggregator rn)"
  obtain es t r d u a where q: "snd (serve_request rn q) =
      snd (finish_request r q d u (record_effects (map (Pair t) es) (rn\<lparr>rn_aggregator := a\<rparr>)))"
    and es: "es = [] \<or> es = fst (snd ?ev)"
    by (auto simp: serve_request_def Let_def split_beta split: if_splits)
  let ?rn = "record_effects (map (Pair t) es) (rn\<lparr>rn_aggregator := a\<rparr>)"
  from es have "\<forall>ctx' l msg as. LogEvent ctx' l msg as \<in> set es \<longrightarrow> ctx' = request_context q"
    using round_effects_context by auto
  from record_effects_lines [of "rn\<lparr>rn_aggregator := a\<rparr>" opts es q t, OF _ this] assms
  obtain ls where "rn_output ?rn = rn_output rn @ ls" "list_all (line_of_request opts (request_trace_id q)) ls"
    by auto
  moreover from finish_request_lines [of ?rn opts r q d u] assms
  obtain ls' where "rn_output (snd (finish_request r q d u ?rn)) = rn_output ?rn @ ls'"
    "list_all (line_of_request opts (request_trace_id q)) ls'" by (auto simp: serve_simps)
  ultimately show ?thesis by (simp add: q)
qed

lemma serve_all_lines:
  assumes "rn_logger rn = new_logger opts"
  shows "rn_logger (snd (serve_all hs rn)) = new_logger opts"
  using serve_all_invariant [of "\<lambda>rn. rn_logger rn = new_logger opts" "\<lambda>_ _. True"] assms
  by (simp add: serve_simps close_gate_def)

text \<open>
  Correlation: in a service that was started and has handled anything at all, every line
  that a request causes is one record with the fields of the log contract that names the
  configured service and version and carries the identifier of this very request, the lines
  about failed dependencies included.
\<close>

theorem every_line_correlates:
  assumes "start_service gv commit prom lb cfg = Some rn0"
    and "rn = snd (serve_all hs rn0)"
  shows "\<exists>lines. rn_output (snd (serve_request rn q)) = rn_output rn @ lines \<and>
    list_all (\<lambda>line. \<exists>t l msg as. line = render slog_escaping (JObj
       ([(''time'', JStr (format_millis t)), (''level'', JStr (level_string l)), (''msg'', JStr msg),
         (''service'', JStr (cfg_service_name cfg)), (''version'', JStr (cfg_version cfg))] @
        map (\<lambda>a. field_of (replace_attr [] a)) as @
        [(''trace_id'', JStr (trace_id_string (request_trace_id q)))])) @ [CHR 0x0A]) lines"
proof -
  have "rn_logger rn = new_logger (logger_options cfg)"
    unfolding assms(2) by (rule serve_all_lines) (rule started(2) [OF assms(1)])
  from serve_request_lines [OF this, of q] show ?thesis
    by (simp only: line_of_request_def [abs_def] service_line_def logger_options_def log_options.simps)
qed

theorem every_line_correlates_witness:
  "\<exists>rn lines. example_service = Some rn \<and>
     rn_output (snd (serve_request rn (example_request ready_path))) = rn_output rn @ lines \<and>
     list_all (\<lambda>line. \<exists>t l msg as. line = service_line
       (logger_options (default_config api_defaults)) (replicate 15 0 @ [1]) t l msg as) lines"
proof -
  obtain rn where rn: "example_service = Some rn" by (rule example_starts)
  have "request_trace_id (example_request ready_path) = replicate 15 0 @ [1]" by code_simp
  with every_line_correlates [OF rn [unfolded example_service_def], of rn "[]" "example_request ready_path"] rn
  show ?thesis by (simp only: service_line_def logger_options_def log_options.simps serve_all.simps snd_conv refl) blast
qed

section \<open>Metrics of the dependencies\<close>

definition gauges :: "status list \<Rightarrow> go_string \<rightharpoonup> int" where
  "gauges sts = map_of (map (\<lambda>st. (st_name st, if st_healthy st then 1 else 0)) sts)"

lemma fold_observe_up:
  "dm_up (fold observe_check (snd (report True ctx sts (s, []))) m) =
     fold (\<lambda>st up. up(st_name st \<mapsto> if st_healthy st then 1 else 0)) sts (dm_up m)"
proof (induction sts arbitrary: m)
  case (Cons st sts)
  have tail: "snd (report True ctx (st # sts) (s, [])) =
      RecordCheck (st_name st) (st_healthy st) (st_duration_ms st * 1000000) #
      (if st_healthy st then [] else [failure_event ctx st]) @ snd (report True ctx sts (s, []))"
    by (simp add: report_snd)
  from Cons show ?case
    unfolding tail by (simp add: failure_event_def record_dependency_check_def)
qed simp

lemma fold_update_gauges:
  assumes "distinct (map st_name sts)"
  shows "fold (\<lambda>st up. up(st_name st \<mapsto> if st_healthy st then 1 else 0)) sts up = up ++ gauges sts"
  using assms
proof (induction sts arbitrary: up)
  case (Cons st sts)
  then have "st_name st \<notin> dom (gauges sts)"
    by (auto simp: gauges_def dom_map_of_conv_image_fst image_image)
  moreover have "gauges (st # sts) = (gauges sts)(st_name st \<mapsto> if st_healthy st then 1 else 0)"
    by (simp add: gauges_def)
  ultimately show ?case
    using Cons by (simp add: map_add_upd_left del: fun_upd_apply)
qed (simp add: gauges_def)

lemma dom_gauges: "dom (gauges sts) = set (map st_name sts)"
  by (auto simp: gauges_def dom_map_of_conv_image_fst image_image)

lemma map_add_absorb: "dom f \<subseteq> dom g \<Longrightarrow> f ++ g = g"
  by (rule ext) (auto simp: map_add_def split: option.splits)

definition service_options :: "libraries \<Rightarrow> config \<Rightarrow> aggregator_options" where
  "service_options lb cfg = readiness_options (dependency_checks lb cfg) cfg"

definition dependency_names :: "go_string list" where
  "dependency_names = [dependency_kafka, dependency_clickhouse, dependency_redis]"

lemma service_options_simps [serve_simps]:
  "map ck_name (ao_checkers (service_options lb cfg)) = dependency_names"
  "ao_metrics (service_options lb cfg)" "distinct dependency_names"
  by (simp_all add: service_options_def readiness_options_def dependency_names_def
      dependency_kafka_def dependency_clickhouse_def dependency_redis_def)

lemma service_checkers:
  "ao_checkers (service_options lb cfg) =
     map (\<lambda>n. \<lparr>ck_name = n, ck_check = dependency_checks lb cfg n\<rparr>) dependency_names"
  by (simp_all add: service_options_def readiness_options_def dependency_names_def
      dependency_kafka_def dependency_clickhouse_def dependency_redis_def)

definition gauges_ok :: "libraries \<Rightarrow> config \<Rightarrow> running \<Rightarrow> bool" where
  "gauges_ok lb cfg rn \<longleftrightarrow> ag_ok (service_options lb cfg) (rn_aggregator rn) \<and>
     dm_up (rn_deps rn) =
       (case ag_cached (rn_aggregator rn) of None \<Rightarrow> Map.empty | Some r \<Rightarrow> gauges (res_dependencies r))"

lemma gauges_ok_dom:
  assumes "gauges_ok lb cfg rn"
  shows "dom (dm_up (rn_deps rn)) \<subseteq> set dependency_names"
proof (cases "ag_cached (rn_aggregator rn)")
  case (Some r)
  with assms have "map st_name (res_dependencies r) = dependency_names"
    by (simp add: gauges_ok_def ag_ok_def well_formed_def serve_simps)
  with Some assms show ?thesis by (simp add: gauges_ok_def dom_gauges del: set_map)
qed (use assms in \<open>simp add: gauges_ok_def\<close>)

lemma gauges_round:
  assumes opts: "ag_opts a = service_options lb cfg" and "dom (dm_up m) \<subseteq> set dependency_names"
  shows "dm_up (fold observe_check (fst (snd (evaluate_now ctx t a))) m) =
    gauges (res_dependencies (fst (evaluate_now ctx t a)))"
proof -
  let ?sts = "res_dependencies (fst (evaluate_now ctx t a))"
  have names: "map st_name ?sts = dependency_names"
    by (simp add: evaluate_now_simps opts comp_def run_simps service_checkers dependency_names_def)
  have "fst (snd (evaluate_now ctx t a)) = snd (report True ctx ?sts (status_ready, []))"
    by (simp add: evaluate_now_def Let_def split_beta opts serve_simps)
  then show ?thesis
    using fold_observe_up fold_update_gauges [of ?sts] names assms(2)
    by (simp add: serve_simps map_add_absorb dom_gauges del: evaluate_now_simps)
qed

lemma serve_request_gauges:
  assumes "gauges_ok lb cfg rn"
  shows "gauges_ok lb cfg (snd (serve_request rn q))"
proof (cases "asks_readiness q")
  case True
  let ?a = "rn_aggregator rn" and ?ctx = "request_context q" and ?t = "in_at q"
  from assms have ok: "ag_ok (service_options lb cfg) ?a" by (simp add: gauges_ok_def)
  then have opts: "ag_opts ?a = service_options lb cfg" by (simp add: ag_ok_def)
  note dom = gauges_ok_dom [OF assms]
  consider "ag_shutting_down ?a" | r where "\<not> ag_shutting_down ?a" "fresh ?a ?t = Some r"
    | "\<not> ag_shutting_down ?a" "fresh ?a ?t = None" by fastforce
  then show ?thesis
  proof cases
    case 3
    from evaluate_stale [OF this, of ?ctx] gauges_round [OF opts dom, of ?ctx ?t] True
      evaluate_ok [OF ok, of ?ctx ?t] show ?thesis
      by (simp add: gauges_ok_def serve_simps del: evaluate_now_simps)
  qed (use assms True in \<open>simp_all add: gauges_ok_def serve_simps evaluate_shutting_down evaluate_cached\<close>)
qed (use assms in \<open>simp add: gauges_ok_def serve_simps\<close>)

lemma close_gate_gauges: "gauges_ok lb cfg rn \<Longrightarrow> gauges_ok lb cfg (close_gate rn)"
  by (simp add: gauges_ok_def close_gate_def step_effect_def begin_shutdown_def ag_ok_def)

lemma started_gauges: "start_service gv commit prom lb cfg = Some rn \<Longrightarrow> gauges_ok lb cfg rn"
  by (frule started(3), drule started(5))
    (simp add: gauges_ok_def service_options_def ag_ok_def new_aggregator_def)

lemma serve_all_gauges:
  assumes "start_service gv commit prom lb cfg = Some rn"
  shows "gauges_ok lb cfg (snd (serve_all hs rn))"
  using serve_all_invariant [of "gauges_ok lb cfg" "\<lambda>_ _. True" rn hs]
    serve_request_gauges close_gate_gauges started_gauges [OF assms] by blast

text \<open>
  The dependency gauges always show the answer the service keeps: at any time after
  any requests, there is no gauge before the first round, and then exactly one for each
  dependency of the kept answer, 1 if it was healthy and 0 if not. The label takes the three
  fixed names only.
\<close>

theorem gauges_show_kept_answer:
  assumes "start_service gv commit prom lb cfg = Some rn0"
    and "rn = snd (serve_all hs rn0)"
  shows "dm_up (rn_deps rn) =
      (case ag_cached (rn_aggregator rn) of
         None \<Rightarrow> Map.empty
       | Some r \<Rightarrow> map_of (map (\<lambda>st. (st_name st, if st_healthy st then 1 else 0)) (res_dependencies r))) \<and>
    dom (dm_up (rn_deps rn)) \<subseteq> {''kafka'', ''clickhouse'', ''redis''}"
proof -
  have ok: "gauges_ok lb cfg rn" using serve_all_gauges [OF assms(1)] assms(2) by simp
  with gauges_ok_dom [OF ok] show ?thesis
    by (cases "ag_cached (rn_aggregator rn)")
      (simp_all add: gauges_ok_def gauges_def dependency_names_def dependency_kafka_def
        dependency_clickhouse_def dependency_redis_def)
qed

theorem gauges_show_kept_answer_witness:
  "\<exists>rn. example_service = Some rn \<and>
     dm_up (rn_deps (snd (serve_all [Request (example_request ready_path), CloseGate] rn))) ''postgres'' = None"
proof -
  obtain rn where rn: "example_service = Some rn" by (rule example_starts)
  from gauges_show_kept_answer [OF rn [unfolded example_service_def] refl,
      of "[Request (example_request ready_path), CloseGate]", THEN conjunct2]
  have "''postgres'' \<notin> dom (dm_up (rn_deps (snd (serve_all [Request (example_request ready_path), CloseGate] rn))))"
    by (rule contra_subsetD) simp
  with rn show ?thesis by (auto simp del: serve_all.simps)
qed

section \<open>Labels\<close>

definition route_labels :: "go_string set" where
  "route_labels = {metrics_path, live_path, ready_path, route_unmatched}"

definition labels_ok :: "running \<Rightarrow> bool" where
  "labels_ok rn \<longleftrightarrow> {route. \<exists>m. hm_duration (rn_http rn) (route, m) \<noteq> []} \<subseteq> route_labels"

lemma observe_metrics_route:
  "\<exists>route code. (route \<in> fst ` set mux \<or> route = route_unmatched) \<and>
     sv_metrics (observe mux m drawn d base r) = observe_http m route (rq_method r) code d"
  using mux_pattern [of mux r] by (auto simp: observe_def Let_def split_beta)

lemma serve_request_metrics:
  "\<exists>route code d. route \<in> route_labels \<and>
     rn_http (snd (serve_request rn q)) = observe_http (rn_http rn) route (rq_method (in_request q)) code d"
proof -
  have "\<exists>route code d'. route \<in> route_labels \<and>
      sv_metrics (observe (service_mux rn h) (rn_http rn) drawn d base r) =
        observe_http (rn_http rn) route (rq_method r) code d'" for h drawn d base r
    using observe_metrics_route [of "service_mux rn h" "rn_http rn" drawn d base r]
    by (auto simp: service_mux_def route_labels_def)
  then show ?thesis
    by (simp add: serve_request_def finish_request_def serve_simps Let_def split_beta)
qed

lemma serve_request_labels: "labels_ok rn \<Longrightarrow> labels_ok (snd (serve_request rn q))"
  using serve_request_metrics [of rn q] by (fastforce simp: labels_ok_def observe_http_def)

text \<open>
  The route label of the HTTP metrics is bounded over the whole life of a service: whatever
  requests it gets, for whatever paths, only the three routes and the fixed label for anything
  else ever have an observation.
\<close>

theorem route_labels_bounded:
  assumes "start_service gv commit prom lb cfg = Some rn"
  shows "{route. \<exists>m. hm_duration (rn_http (snd (serve_all hs rn))) (route, m) \<noteq> []} \<subseteq>
    {''/metrics'', ''/v1/health/live'', ''/v1/health/ready'', ''unmatched''}"
proof -
  have "labels_ok rn" using started(4) [OF assms] by (simp add: labels_ok_def)
  moreover have "labels_ok rn' \<Longrightarrow> labels_ok (close_gate rn')" for rn'
    by (simp add: labels_ok_def close_gate_def)
  ultimately have "labels_ok (snd (serve_all hs rn))"
    using serve_all_invariant [of labels_ok "\<lambda>_ _. True"] serve_request_labels by blast
  then show ?thesis
    by (simp add: labels_ok_def route_labels_def metrics_path_def live_path_def ready_path_def
        route_unmatched_def)
qed

theorem route_labels_bounded_witness:
  "\<exists>rn. example_service = Some rn \<and>
     hm_duration (rn_http (snd (serve_all [Request (example_request ''/etc/passwd'')] rn))) (''/etc/passwd'', ''GET'') = []"
proof -
  obtain rn where rn: "example_service = Some rn" by (rule example_starts)
  from route_labels_bounded [OF rn [unfolded example_service_def],
      of "[Request (example_request ''/etc/passwd'')]"]
  have "''/etc/passwd'' \<notin> {route. \<exists>m. hm_duration (rn_http (snd (serve_all
      [Request (example_request ''/etc/passwd'')] rn))) (route, m) \<noteq> []}"
    by (auto simp del: serve_all.simps)
  with rn show ?thesis by (auto simp del: serve_all.simps)
qed

section \<open>The health endpoints\<close>

lemma response_status [serve_simps]: "client_status (response_ops (readiness_response r)) = (if res_status r = status_ready then 200 else 503)"
  by (simp add: response_ops_def readiness_response_def)

text \<open>
  Liveness depends on nothing: at any time in the life of a service, with whatever is
  cached, failing or shutting down, a request for the liveness route gets the same 200 and the
  same body, and leaves the aggregator and the dependency metrics alone.
\<close>

theorem liveness_is_independent:
  assumes "start_service gv commit prom lb cfg = Some rn0"
    and "rn = snd (serve_all hs rn0)"
    and "rq_path (in_request q) = ''/v1/health/live''"
  shows "fst (serve_request rn q) =
      [SetHeader ''Content-Type'' ''application/json'', WriteHeader 200,
       Write (render marshal_escaping (JObj [(''status'', JStr ''alive''),
         (''service'', JStr (cfg_service_name cfg)), (''version'', JStr (cfg_version cfg))]))] \<and>
    rn_aggregator (snd (serve_request rn q)) = rn_aggregator rn \<and>
    rn_deps (snd (serve_request rn q)) = rn_deps rn"
proof -
  have live: "rq_path (in_request q) = live_path" using assms(3) by (simp add: live_path_def)
  then have "\<not> asks_readiness q" by (simp add: asks_readiness_def serve_simps)
  moreover have "rn_config rn = cfg"
    using serve_all_invariant [of "\<lambda>rn. rn_config rn = cfg" "\<lambda>_ _. True" rn0 hs] started(1) [OF assms(1)]
      assms(2) by (simp add: serve_simps close_gate_def)
  ultimately show ?thesis
    by (simp add: serve_live [OF live] serve_simps response_ops_def liveness_handler_def
        liveness_json_def status_alive_def del: render.simps)
qed

theorem liveness_is_independent_witness:
  "\<exists>rn. example_service = Some rn \<and>
     client_status (fst (serve_request (snd (serve_all [CloseGate] rn)) (example_request live_path))) = 200"
proof -
  obtain rn where rn: "example_service = Some rn" by (rule example_starts)
  have "rq_path (in_request (example_request live_path)) = ''/v1/health/live''"
    by (simp add: example_request_def live_path_def)
  from liveness_is_independent [OF rn [unfolded example_service_def] refl this, of "[CloseGate]", THEN conjunct1] rn
  show ?thesis by (intro exI [of _ rn]) (simp del: render.simps serve_all.simps)
qed

lemma closed_gate_refuses:
  assumes "ag_shutting_down (rn_aggregator rn)"
  shows "ag_shutting_down (rn_aggregator (snd (serve_request rn q)))"
    "asks_readiness q \<Longrightarrow> client_status (fst (serve_request rn q)) = 503"
    "rn_aggregator (snd (serve_request rn q)) = rn_aggregator rn"
    "rn_deps (snd (serve_request rn q)) = rn_deps rn"
  using assms
  by (simp_all add: serve_simps evaluate_shutting_down readiness_handler_def shutdown_result_def
      status_ready_def status_not_ready_def)

text \<open>
  A closed gate stays closed for the service: after the first step of a shutdown, every
  later request for readiness is answered with 503, no dependency is probed for any request,
  and no dependency metric changes again.
\<close>

theorem closed_gate_is_final:
  "list_all (\<lambda>(q, ops). rq_path (in_request q) = ''/v1/health/ready'' \<longrightarrow> client_status ops = 503)
     (fst (serve_all (CloseGate # hs) rn)) \<and>
   check_rounds (rn_aggregator (snd (serve_all (CloseGate # hs) rn))) = check_rounds (rn_aggregator rn) \<and>
   rn_deps (snd (serve_all (CloseGate # hs) rn)) = rn_deps rn"
proof -
  let ?I = "\<lambda>rn'. ag_shutting_down (rn_aggregator rn') \<and>
    check_rounds (rn_aggregator rn') = check_rounds (rn_aggregator rn) \<and> rn_deps rn' = rn_deps rn"
  have "?I (close_gate rn)"
    by (simp add: close_gate_def step_effect_def begin_shutdown_def check_rounds_def)
  then show ?thesis
    using serve_all_invariant [of ?I "\<lambda>q ops. asks_readiness q \<longrightarrow> client_status ops = 503" "close_gate rn" hs]
      closed_gate_refuses
    by (auto simp: asks_readiness_def ready_path_def close_gate_def step_effect_def begin_shutdown_def
        check_rounds_def)
qed

theorem closed_gate_is_final_witness:
  "\<exists>rn. example_service = Some rn \<and> map (\<lambda>(q, ops). client_status ops)
     (fst (serve_all [CloseGate, Request (example_request ready_path)] rn)) = [503]"
proof -
  obtain rn where rn: "example_service = Some rn" by (rule example_starts)
  have "rq_path (in_request (example_request ready_path)) = ''/v1/health/ready''"
    by (simp add: example_request_def ready_path_def)
  with closed_gate_is_final [of "[Request (example_request ready_path)]" rn] rn show ?thesis
    by (auto simp: split_beta Let_def)
qed

section \<open>Readiness follows the dependencies\<close>

lemma evaluate_keeps_open:
  "\<not> ag_shutting_down a \<Longrightarrow> \<not> ag_shutting_down (snd (snd (evaluate ctx t a)))"
  by (cases "fresh a t") (simp_all add: evaluate_cached evaluate_stale)

lemma serve_all_open:
  assumes "\<not> ag_shutting_down (rn_aggregator rn)" "CloseGate \<notin> set hs"
  shows "\<not> ag_shutting_down (rn_aggregator (snd (serve_all hs rn)))"
  using assms
proof (induction hs rn rule: serve_all.induct)
  case (2 q hs rn)
  have "\<not> ag_shutting_down (rn_aggregator (snd (serve_request rn q)))"
    using 2(2) evaluate_keeps_open by (simp add: serve_simps)
  from 2(1) [OF HOL.refl prod.collapse this] 2(3) show ?case by (simp add: split_beta Let_def)
qed simp_all

text \<open>
  C11: While the gate is open and the answer that the service keeps, if it keeps one, is as
  old as the cache TTL, a request for readiness is answered by what the three dependencies say
  at that moment, each asked under the check timeout: 200 if none of them fails, 503 otherwise,
  whatever happened to the service before. So an outage shows, and a service whose
  dependencies are back becomes ready by itself, if its clients could be built.
\<close>

theorem readiness_follows_dependencies:
  assumes "start_service gv commit prom lb cfg = Some rn0"
    and "rn = snd (serve_all hs rn0)" and "CloseGate \<notin> set hs"
    and "\<forall>r. ag_cached (rn_aggregator rn) = Some r \<longrightarrow>
      cfg_health_cache_ttl cfg \<le> in_at q - res_evaluated_at r"
    and "rq_path (in_request q) = ''/v1/health/ready''"
  shows "client_status (fst (serve_request rn q)) =
    (if list_all (\<lambda>name. fst (dependency_checks lb cfg name
          (with_timeout (request_context q) (in_at q) (cfg_health_check_timeout cfg)) (in_at q)) = None)
        [''kafka'', ''clickhouse'', ''redis'']
     then 200 else 503)"
proof -
  have ready: "asks_readiness q" using assms(5) by (simp add: asks_readiness_def ready_path_def)
  have opts: "ag_opts (rn_aggregator rn) = service_options lb cfg"
    using serve_all_gauges [OF assms(1), of hs] by (simp add: assms(2) gauges_ok_def ag_ok_def)
  have "\<not> ag_shutting_down (rn_aggregator rn)"
    using serve_all_open [OF _ assms(3), of rn0]
    by (simp add: assms(2) started(3) [OF assms(1)] new_aggregator_def)
  moreover have "fresh (rn_aggregator rn) (in_at q) = None"
    using assms(4) by (auto simp: fresh_def opts service_options_def readiness_options_def split: option.splits)
  ultimately show ?thesis
    by (simp add: serve_simps ready readiness_handler_def split_beta evaluate_stale evaluate_now_simps(1)
        opts service_checkers dependency_names_def dependency_kafka_def dependency_clickhouse_def
        dependency_redis_def status_ready_def status_not_ready_def)
      (simp add: service_options_def readiness_options_def)
qed

text \<open>Redis is out for the first half of a second.\<close>

definition recovering_libraries :: libraries where
  "recovering_libraries =
     \<lparr>lb_kafka_new = (\<lambda>_. Inr 0), lb_kafka_metadata = (\<lambda>_ _ _. (None, 4000000)),
      lb_clickhouse_open = (\<lambda>_. Inr 1), lb_clickhouse_ping = (\<lambda>_ _ _. (None, 5000000)),
      lb_redis_new = (\<lambda>_. 2),
      lb_redis_ping = (\<lambda>_ _ t. if t < 500000000 then (Some (ErrorString ''refused''), 1000000) else (None, 1000000))\<rparr>"

theorem readiness_follows_dependencies_witness:
  "\<exists>rn. start_service ''go1.25'' ''unknown'' (\<lambda>_. not_found) recovering_libraries
       (default_config worker_defaults) = Some rn \<and>
     client_status (fst (serve_request (snd (serve_all [Request (example_request ready_path)] rn))
       ((example_request ready_path)\<lparr>in_at := 9000000000\<rparr>))) = 200"
proof -
  let ?q = "(example_request ready_path)\<lparr>in_at := 9000000000\<rparr>"
  let ?cfg = "default_config worker_defaults"
  obtain rn where rn: "start_service ''go1.25'' ''unknown'' (\<lambda>_. not_found) recovering_libraries ?cfg = Some rn"
    using service_starts by blast
  let ?rn = "snd (serve_all [Request (example_request ready_path)] rn)"
  have path: "rq_path (in_request ?q) = ''/v1/health/ready''" by (simp add: example_request_def ready_path_def)
  have ag: "rn_aggregator ?rn = snd (snd (evaluate (request_context (example_request ready_path)) 1000
      (new_aggregator (readiness_options (dependency_checks recovering_libraries ?cfg) ?cfg))))"
    by (simp add: serve_simps split_beta Let_def started(3) [OF rn] asks_readiness_def example_request_def)
  have "(case ag_cached (snd (snd (evaluate (request_context (example_request ready_path)) 1000
      (new_aggregator (readiness_options (dependency_checks recovering_libraries ?cfg) ?cfg))))) of
      None \<Rightarrow> False | Some r \<Rightarrow> cfg_health_cache_ttl ?cfg \<le> 9000000000 - res_evaluated_at r)" by code_simp
  then have "\<forall>r. ag_cached (rn_aggregator ?rn) = Some r \<longrightarrow>
      cfg_health_cache_ttl ?cfg \<le> in_at ?q - res_evaluated_at r"
    unfolding ag by (auto split: option.splits)
  moreover have "list_all (\<lambda>name. fst (dependency_checks recovering_libraries ?cfg name
          (with_timeout (request_context ?q) (in_at ?q) (cfg_health_check_timeout ?cfg)) (in_at ?q)) = None)
        [''kafka'', ''clickhouse'', ''redis'']" by code_simp
  ultimately show ?thesis
    using readiness_follows_dependencies [OF rn HOL.refl _ _ path, of "[Request (example_request ready_path)]"] rn
    by auto
qed

section \<open>A client that cannot be built\<close>

definition never_ready :: "libraries \<Rightarrow> config \<Rightarrow> running \<Rightarrow> bool" where
  "never_ready lb cfg rn \<longleftrightarrow> ag_opts (rn_aggregator rn) = service_options lb cfg \<and>
     (\<forall>r. ag_cached (rn_aggregator rn) = Some r \<longrightarrow> res_status r \<noteq> status_ready)"

lemma kafka_probe_unbuildable:
  "lb_kafka_new lb brokers = Inl e \<Longrightarrow> fst (kafka_probe lb (new_kafka_checker brokers) ctx t) \<noteq> None"
  by (simp add: kafka_probe_def kafka_check_def kafka_init_def new_kafka_checker_def Let_def)

lemma clickhouse_probe_unbuildable:
  "lb_clickhouse_open lb (cc_opts (new_clickhouse_checker ccfg :: nat clickhouse_checker)) = Inl e \<Longrightarrow>
     fst (clickhouse_probe lb (new_clickhouse_checker ccfg) ctx t) \<noteq> None"
  by (simp add: clickhouse_probe_def clickhouse_check_def clickhouse_init_def new_clickhouse_checker_def Let_def)

text \<open>A dependency whose check never succeeds.\<close>

definition always_fails :: "libraries \<Rightarrow> config \<Rightarrow> bool" where
  "always_fails lb cfg \<longleftrightarrow>
     (\<exists>name \<in> set dependency_names. \<forall>ctx t. fst (dependency_checks lb cfg name ctx t) \<noteq> None)"

lemma unbuildable_always_fails:
  assumes "lb_kafka_new lb (cfg_kafka_brokers cfg) = Inl e \<or>
      lb_clickhouse_open lb (cc_opts (new_clickhouse_checker (clickhouse_config_of cfg) ::
        nat clickhouse_checker)) = Inl e"
  shows "always_fails lb cfg"
  using assms
proof
  assume "lb_kafka_new lb (cfg_kafka_brokers cfg) = Inl e"
  from kafka_probe_unbuildable [OF this] show ?thesis
    by (simp add: always_fails_def dependency_names_def dependency_checks_def del: not_None_eq)
next
  assume "lb_clickhouse_open lb (cc_opts (new_clickhouse_checker (clickhouse_config_of cfg) ::
        nat clickhouse_checker)) = Inl e"
  from clickhouse_probe_unbuildable [OF this] show ?thesis
    by (simp add: always_fails_def dependency_names_def dependency_checks_def dependency_kafka_def
        dependency_clickhouse_def del: not_None_eq)
qed

lemma round_never_ready:
  assumes "ag_opts a = service_options lb cfg" "always_fails lb cfg"
  shows "res_status (fst (evaluate_now ctx t a)) \<noteq> status_ready"
proof -
  have "\<exists>n \<in> set dependency_names. fst (dependency_checks lb cfg n
      (with_timeout ctx t (ao_timeout (service_options lb cfg))) t) \<noteq> None"
    using assms(2) unfolding always_fails_def by blast
  then show ?thesis
    by (auto simp: evaluate_now_simps assms(1) service_checkers list_all_iff
        status_ready_def status_not_ready_def simp del: not_None_eq)
qed

lemma refusal_never_ready: "res_status (shutdown_result a t) \<noteq> status_ready"
  by (simp add: shutdown_result_def status_ready_def status_not_ready_def)

lemma evaluate_never_ready:
  assumes "ag_opts a = service_options lb cfg" "\<And>r. ag_cached a = Some r \<Longrightarrow> res_status r \<noteq> status_ready"
    and "always_fails lb cfg"
  shows "res_status (fst (evaluate ctx t a)) \<noteq> status_ready \<and>
    ag_opts (snd (snd (evaluate ctx t a))) = service_options lb cfg \<and>
    (\<forall>r. ag_cached (snd (snd (evaluate ctx t a))) = Some r \<longrightarrow> res_status r \<noteq> status_ready)"
proof -
  have "res_status r \<noteq> status_ready" if "fresh a t = Some r" for r
    using that assms(2) by (auto simp: fresh_def split: option.splits if_splits)
  then show ?thesis
    using assms(1,2) round_never_ready [OF assms(1,3)] refusal_never_ready
    by (auto simp: evaluate_def flight_def split_beta Let_def
        evaluate_now_simps(2) simp del: evaluate_now_simps(1) split: option.splits)
qed

lemma never_ready_serve:
  assumes "always_fails lb cfg" "never_ready lb cfg rn"
  shows "never_ready lb cfg (snd (serve_request rn q)) \<and>
    (asks_readiness q \<longrightarrow> client_status (fst (serve_request rn q)) = 503)"
  using evaluate_never_ready [OF _ _ assms(1), of "rn_aggregator rn" "request_context q" "in_at q"] assms(2)
  by (auto simp: never_ready_def serve_simps readiness_handler_def split_beta)

text \<open>
  Building a client has one chance: if the Kafka or the ClickHouse client cannot be built
  from the configuration, every request for readiness gets a 503 for as long as the process
  lives, whatever the dependencies do later.
\<close>

theorem unbuildable_client_never_ready:
  assumes "start_service gv commit prom lb cfg = Some rn"
    and "lb_kafka_new lb (cfg_kafka_brokers cfg) = Inl e \<or>
      lb_clickhouse_open lb (cc_opts (new_clickhouse_checker (clickhouse_config_of cfg) ::
        nat clickhouse_checker)) = Inl e"
  shows "list_all (\<lambda>(q, ops). rq_path (in_request q) = ''/v1/health/ready'' \<longrightarrow> client_status ops = 503)
    (fst (serve_all hs rn))"
proof -
  have "never_ready lb cfg rn"
    by (simp add: never_ready_def started(3) [OF assms(1)] new_aggregator_def service_options_def)
  moreover have "never_ready lb cfg rn' \<Longrightarrow> never_ready lb cfg (close_gate rn')" for rn'
    by (simp add: never_ready_def close_gate_def step_effect_def begin_shutdown_def)
  ultimately show ?thesis
    using serve_all_invariant [of "never_ready lb cfg"
        "\<lambda>q ops. asks_readiness q \<longrightarrow> client_status ops = 503" rn hs] never_ready_serve [OF unbuildable_always_fails [OF assms(2)]]
    by (auto simp: asks_readiness_def ready_path_def)
qed

theorem unbuildable_client_never_ready_witness:
  "\<exists>rn. example_service = Some rn \<and> map (\<lambda>(q, ops). client_status ops)
     (fst (serve_all [Request (example_request ready_path), Request (example_request ready_path)] rn)) = [503, 503]"
proof -
  obtain rn where rn: "example_service = Some rn" by (rule example_starts)
  have "rq_path (in_request (example_request ready_path)) = ''/v1/health/ready''"
    by (simp add: example_request_def ready_path_def)
  moreover have "lb_kafka_new flaky_libraries (cfg_kafka_brokers (default_config api_defaults)) =
      Inl (ErrorString ''no seed brokers'')" by (simp add: flaky_libraries_def)
  ultimately show ?thesis
    using unbuildable_client_never_ready [OF rn [unfolded example_service_def] disjI1,
        of _ "[Request (example_request ready_path), Request (example_request ready_path)]"] rn
    by (auto simp: split_beta Let_def)
qed

end
