(* ===== verification/Service_Contract.thy ===== *)
theory Service_Contract
  imports Service_Properties
begin

text \<open>
  The schemas of \<open>specs/001-platform-foundation/contracts/health-api.yaml\<close> as predicates on
  JSON values, and the proof that everything the running service serves on its health
  endpoints conforms to them.
\<close>

section \<open>Schemas\<close>

definition member :: "json \<Rightarrow> go_string \<Rightarrow> json option" where
  "member j k = (case j of JObj fs \<Rightarrow> map_of fs k | _ \<Rightarrow> None)"

lemma member_object: "member (JObj fs) k = map_of fs k"
  by (simp add: member_def)

text \<open>An object with the required members, and no others than those and the optional ones.\<close>

definition object_schema :: "go_string list \<Rightarrow> go_string list \<Rightarrow> json \<Rightarrow> bool" where
  "object_schema required optional j =
     (case j of
        JObj fs \<Rightarrow> distinct (map fst fs) \<and> list_all (\<lambda>k. k \<in> set (map fst fs)) required \<and>
          list_all (\<lambda>k. k \<in> set required \<or> k \<in> set optional) (map fst fs)
      | _ \<Rightarrow> False)"

fun is_string :: "json option \<Rightarrow> bool" where
  "is_string (Some (JStr _)) = True"
| "is_string _ = False"

fun is_one_of :: "go_string list \<Rightarrow> json option \<Rightarrow> bool" where
  "is_one_of ws (Some (JStr s)) = (s \<in> set ws)"
| "is_one_of _ _ = False"

fun is_natural :: "json option \<Rightarrow> bool" where
  "is_natural (Some (JInt n)) = (0 \<le> n)"
| "is_natural _ = False"

fun is_bool :: "json option \<Rightarrow> bool" where
  "is_bool (Some (JBool _)) = True"
| "is_bool _ = False"

definition reasons :: "go_string list" where
  "reasons = [''timeout'', ''connection_refused'', ''auth_failed'', ''protocol_error'', ''unknown'']"

text \<open>\<open>DependencyStatus\<close>; a reason is present only when the dependency is not healthy.\<close>

definition dependency_schema :: "json \<Rightarrow> bool" where
  "dependency_schema j \<longleftrightarrow>
     object_schema [''name'', ''healthy'', ''duration_ms''] [''reason''] j \<and>
     is_one_of [''kafka'', ''clickhouse'', ''redis''] (member j ''name'') \<and>
     is_bool (member j ''healthy'') \<and> is_natural (member j ''duration_ms'') \<and>
     (member j ''reason'' = None \<or>
      is_one_of reasons (member j ''reason'') \<and> member j ''healthy'' = Some (JBool False))"

fun is_array_of :: "(json \<Rightarrow> bool) \<Rightarrow> json option \<Rightarrow> bool" where
  "is_array_of P (Some (JArr js)) = list_all P js"
| "is_array_of _ _ = False"

fun array_length :: "json option \<Rightarrow> nat" where
  "array_length (Some (JArr js)) = length js"
| "array_length _ = 0"

text \<open>\<open>ReadinessResponse\<close>.\<close>

definition readiness_schema :: "json \<Rightarrow> bool" where
  "readiness_schema j \<longleftrightarrow>
     object_schema [''status'', ''service'', ''version'', ''evaluated_at'', ''dependencies'']
       [''shutting_down''] j \<and>
     is_one_of [''ready'', ''not_ready''] (member j ''status'') \<and>
     is_string (member j ''service'') \<and> is_string (member j ''version'') \<and>
     is_string (member j ''evaluated_at'') \<and>
     member j ''shutting_down'' \<in> {None, Some (JBool True)} \<and>
     is_array_of dependency_schema (member j ''dependencies'') \<and>
     3 \<le> array_length (member j ''dependencies'')"

section \<open>Well-typed answers\<close>

definition status_ok :: "status \<Rightarrow> bool" where
  "status_ok st \<longleftrightarrow> st_name st \<in> set dependency_names \<and> 0 \<le> st_duration_ms st \<and>
     (st_healthy st \<longrightarrow> st_reason st = None)"

definition result_ok :: "health_result \<Rightarrow> bool" where
  "result_ok r \<longleftrightarrow> res_status r \<in> {status_ready, status_not_ready} \<and>
     list_all status_ok (res_dependencies r) \<and> length (res_dependencies r) = 3 \<and>
     (res_status r = status_ready \<longrightarrow>
        \<not> res_shutting_down r \<and> list_all st_healthy (res_dependencies r))"

lemma reason_string_bounded: "reason_string r \<in> set reasons"
  by (cases r) (simp_all add: reasons_def)

lemma status_json_schema: "status_ok st \<Longrightarrow> dependency_schema (status_json st)"
  using reason_string_bounded
  by (auto simp: status_ok_def dependency_schema_def status_json_def object_schema_def member_def
      dependency_names_def dependency_kafka_def dependency_clickhouse_def dependency_redis_def
      split: option.splits)

lemma result_json_members:
  "member (result_json r) ''status'' = Some (JStr (res_status r))"
  "member (result_json r) ''service'' = Some (JStr (res_service r))"
  "member (result_json r) ''version'' = Some (JStr (res_version r))"
  "member (result_json r) ''evaluated_at'' = Some (JStr (format_nanos (res_evaluated_at r)))"
  "member (result_json r) ''shutting_down'' = (if res_shutting_down r then Some (JBool True) else None)"
  "member (result_json r) ''dependencies'' = Some (JArr (map status_json (res_dependencies r)))"
  by (simp_all add: member_def result_json_def)

lemma result_json_schema: "result_ok r \<Longrightarrow> readiness_schema (result_json r)"
  using status_json_schema
  by (auto simp: readiness_schema_def result_json_members result_ok_def list_all_iff status_ready_def
      status_not_ready_def)
    (simp_all add: object_schema_def result_json_def)

section \<open>The invariant\<close>

text \<open>Libraries whose requests take no negative time.\<close>

definition timely :: "libraries \<Rightarrow> bool" where
  "timely lb \<longleftrightarrow> (\<forall>cl ctx t. 0 \<le> snd (lb_kafka_metadata lb cl ctx t) \<and>
     0 \<le> snd (lb_clickhouse_ping lb cl ctx t) \<and> 0 \<le> snd (lb_redis_ping lb cl ctx t))"

lemma dependency_checks_time: "timely lb \<Longrightarrow> 0 \<le> snd (dependency_checks lb cfg name ctx t)"
  by (simp add: timely_def dependency_checks_def kafka_probe_def clickhouse_probe_def
      redis_probe_def Let_def)

lemma milliseconds_nonneg: "0 \<le> d \<Longrightarrow> 0 \<le> milliseconds d"
  by (simp add: milliseconds_def)

lemma run_status_ok:
  assumes "timely lb" "c \<in> set (ao_checkers (service_options lb cfg))"
  shows "status_ok (run ctx c d t)"
proof -
  from assms(2) obtain n where c: "c = \<lparr>ck_name = n, ck_check = dependency_checks lb cfg n\<rparr>"
    and n: "n \<in> set dependency_names" by (auto simp: service_checkers)
  with dependency_checks_time [OF assms(1)] show ?thesis
    by (auto simp: status_ok_def run_simps intro: milliseconds_nonneg)
qed

definition contract_inv :: "libraries \<Rightarrow> config \<Rightarrow> running \<Rightarrow> bool" where
  "contract_inv lb cfg rn \<longleftrightarrow> ag_opts (rn_aggregator rn) = service_options lb cfg \<and>
     (\<forall>r. ag_cached (rn_aggregator rn) = Some r \<longrightarrow> result_ok r)"

lemma three_checkers: "length (ao_checkers (service_options lb cfg)) = 3"
  by (simp add: service_checkers dependency_names_def)

text \<open>A round's result, a refusal, and a kept answer.\<close>

lemma round_result_ok:
  assumes "timely lb" "ag_opts a = service_options lb cfg"
  shows "result_ok (fst (evaluate_now ctx t a))"
  using run_status_ok [OF assms(1)] three_checkers
  by (auto simp: result_ok_def evaluate_now_simps assms(2) list_all_iff run_simps
      status_ready_def status_not_ready_def)

lemma refusal_ok:
  assumes "ag_opts a = service_options lb cfg" "\<And>r. ag_cached a = Some r \<Longrightarrow> result_ok r"
  shows "result_ok (shutdown_result a u)"
proof -
  have bare: "status_ok (bare_status n)" if "n \<in> set dependency_names" for n
    using that by (simp add: status_ok_def bare_status_def)
  then show ?thesis
    using assms(2) three_checkers bare
    by (auto simp: result_ok_def shutdown_result_def assms(1) list_all_iff status_ready_def
        status_not_ready_def service_checkers split: option.splits)
qed

lemma fresh_cached: "fresh a t = Some r \<Longrightarrow> ag_cached a = Some r"
  by (auto simp: fresh_def split: option.splits if_splits)

lemma evaluate_result_ok:
  assumes "timely lb" "ag_opts a = service_options lb cfg" "\<And>r. ag_cached a = Some r \<Longrightarrow> result_ok r"
  shows "result_ok (fst (evaluate ctx t a)) \<and> ag_opts (snd (snd (evaluate ctx t a))) = service_options lb cfg \<and>
    (\<forall>r. ag_cached (snd (snd (evaluate ctx t a))) = Some r \<longrightarrow> result_ok r)"
  using round_result_ok [OF assms(1,2)] refusal_ok [OF assms(2,3)] fresh_cached [of a t] assms(2,3)
  by (auto simp: evaluate_def flight_def split_beta Let_def evaluate_now_simps(2)
      simp del: evaluate_now_simps(1) split: option.splits)

lemma serve_all_contract:
  assumes "start_service gv commit prom lb cfg = Some rn" "timely lb"
  shows "contract_inv lb cfg (snd (serve_all hs rn))"
proof -
  have "contract_inv lb cfg rn"
    by (simp add: contract_inv_def started(3) [OF assms(1)] new_aggregator_def service_options_def)
  moreover have "contract_inv lb cfg rn' \<Longrightarrow> contract_inv lb cfg (close_gate rn')" for rn'
    by (simp add: contract_inv_def close_gate_def step_effect_def begin_shutdown_def)
  moreover have "contract_inv lb cfg rn' \<Longrightarrow> contract_inv lb cfg (snd (serve_request rn' q))" for rn' q
    using evaluate_result_ok [OF assms(2), of "rn_aggregator rn'" cfg "request_context q" "in_at q"]
    by (auto simp: contract_inv_def serve_simps)
  ultimately show ?thesis
    using serve_all_invariant [of "contract_inv lb cfg" "\<lambda>_ _. True" rn hs] by blast
qed

fun elements :: "json option \<Rightarrow> json list" where
  "elements (Some (JArr js)) = js"
| "elements _ = []"

text \<open>What the readiness endpoint writes for a well-typed result.\<close>

lemma result_ok_served:
  assumes "result_ok r"
  shows "\<exists>j. readiness_schema j \<and>
    response_ops (readiness_response r) =
      [SetHeader ''Content-Type'' ''application/json'', SetHeader ''Cache-Control'' ''no-store'',
       WriteHeader (if member j ''status'' = Some (JStr ''ready'') then 200 else 503),
       Write (render encoder_escaping j @ [CHR 0x0A])] \<and>
    (member j ''status'' = Some (JStr ''ready'') \<longrightarrow> member j ''shutting_down'' = None \<and>
       list_all (\<lambda>d. member d ''healthy'' = Some (JBool True)) (elements (member j ''dependencies'')))"
proof -
  have "response_ops (readiness_response r) =
      [SetHeader ''Content-Type'' ''application/json'', SetHeader ''Cache-Control'' ''no-store'',
       WriteHeader (if member (result_json r) ''status'' = Some (JStr ''ready'') then 200 else 503),
       Write (render encoder_escaping (result_json r) @ [CHR 0x0A])]"
    by (simp add: response_ops_def readiness_response_def result_json_members status_ready_def)
  then show ?thesis
    using assms result_json_schema [OF assms]
    by (intro exI [of _ "result_json r"])
      (auto simp: result_json_members result_ok_def status_ready_def list_all_iff
        status_json_def member_object)
qed

text \<open>
  What the readiness endpoint serves is what its contract says, at any time in the
  life of a service: one JSON document that conforms to the schema \<open>ReadinessResponse\<close>, with
  all three dependencies, with the code 200 exactly when its status is ready; and it says
  ready only with no shutdown under way and every dependency healthy.
\<close>

theorem readiness_conforms:
  assumes "start_service gv commit prom lb cfg = Some rn0" and "timely lb"
    and "rn = snd (serve_all hs rn0)" and "rq_path (in_request q) = ''/v1/health/ready''"
  shows "\<exists>j. readiness_schema j \<and>
    fst (serve_request rn q) =
      [SetHeader ''Content-Type'' ''application/json'', SetHeader ''Cache-Control'' ''no-store'',
       WriteHeader (if member j ''status'' = Some (JStr ''ready'') then 200 else 503),
       Write (render encoder_escaping j @ [CHR 0x0A])] \<and>
    (member j ''status'' = Some (JStr ''ready'') \<longrightarrow> member j ''shutting_down'' = None \<and>
       list_all (\<lambda>d. member d ''healthy'' = Some (JBool True)) (elements (member j ''dependencies'')))"
proof -
  have ready: "asks_readiness q" using assms(4) by (simp add: asks_readiness_def ready_path_def)
  let ?r = "fst (evaluate (request_context q) (in_at q) (rn_aggregator rn))"
  have "result_ok ?r"
    using serve_all_contract [OF assms(1,2), of hs] evaluate_result_ok [OF assms(2)] assms(3)
    by (simp add: contract_inv_def)
  from result_ok_served [OF this] show ?thesis
    by (simp add: serve_ready [OF ready] readiness_handler_def split_beta)
qed

definition steady_libraries :: libraries where
  "steady_libraries =
     \<lparr>lb_kafka_new = (\<lambda>_. Inr 0), lb_kafka_metadata = (\<lambda>_ _ _. (None, 4000000)),
      lb_clickhouse_open = (\<lambda>_. Inr 1), lb_clickhouse_ping = (\<lambda>_ _ _. (None, 5000000)),
      lb_redis_new = (\<lambda>_. 2), lb_redis_ping = (\<lambda>_ _ _. (None, 1000000))\<rparr>"

theorem readiness_conforms_witness:
  "\<exists>rn j. start_service ''go1.25'' ''unknown'' (\<lambda>_. not_found) steady_libraries
       (default_config worker_defaults) = Some rn \<and> readiness_schema j \<and>
     last (fst (serve_request rn (example_request ready_path))) =
       Write (render encoder_escaping j @ [CHR 0x0A])"
proof -
  obtain rn where rn: "start_service ''go1.25'' ''unknown'' (\<lambda>_. not_found) steady_libraries
      (default_config worker_defaults) = Some rn" using service_starts by blast
  have "timely steady_libraries" by (simp add: timely_def steady_libraries_def)
  moreover have "rq_path (in_request (example_request ready_path)) = ''/v1/health/ready''"
    by (simp add: example_request_def ready_path_def)
  moreover have "rn = snd (serve_all [] rn)" by simp
  ultimately obtain j where "readiness_schema j" "fst (serve_request rn (example_request ready_path)) =
      [SetHeader ''Content-Type'' ''application/json'', SetHeader ''Cache-Control'' ''no-store'',
       WriteHeader (if member j ''status'' = Some (JStr ''ready'') then 200 else 503),
       Write (render encoder_escaping j @ [CHR 0x0A])]"
    using readiness_conforms [OF rn] by blast
  with rn show ?thesis by (auto intro: exI [of _ j])
qed

end
