(* ===== verification/Service_Concurrent.thy ===== *)
theory Service_Concurrent
  imports Service_Contract Concurrent_Properties
begin

text \<open>
  The running service with requests that overlap: the service of \<open>Service\<close>, whose aggregator is
  now the one of \<open>Health_Concurrent\<close>, so that a request for readiness is one of its callers.
  Every request has a goroutine of its own in \<open>net/http\<close>; the steps of these goroutines
  interleave in any way.
\<close>

section \<open>States and steps\<close>

text \<open>
  Requests are numbered. A request is yet to come, or was begun at an instant, or is finished
  with what was written to its client.
\<close>

datatype stage = Expected | Under_way instant | Finished "write_op list"

record busy =
  bz_rn :: running
  bz_world :: world
  bz_stage :: "nat \<Rightarrow> stage"

definition opened :: "running \<Rightarrow> instant \<Rightarrow> busy" where
  "opened rn t =
     \<lparr>bz_rn = rn, bz_world = initial (ag_opts (rn_aggregator rn)) t, bz_stage = (\<lambda>_. Expected)\<rparr>"

definition contexts :: "(nat \<Rightarrow> incoming) \<Rightarrow> nat \<Rightarrow> req_context" where
  "contexts qs i = request_context (qs i)"

text \<open>The effects that a step of the aggregator adds.\<close>

definition new_effects :: "world \<Rightarrow> world \<Rightarrow> (instant \<times> effect) list" where
  "new_effects w w' = drop (length (w_effects w)) (w_effects w')"

definition worked :: "busy \<Rightarrow> world \<Rightarrow> busy" where
  "worked b w' =
     b\<lparr>bz_world := w',
       bz_rn := record_effects (new_effects (bz_world b) w') ((bz_rn b)\<lparr>rn_aggregator := w_ag w'\<rparr>)\<rparr>"

text \<open>
  \<open>arrive\<close>: the middleware takes a request. \<open>work\<close>: time passes, the gate closes, or a request
  for readiness that is under way moves on inside \<open>Evaluate\<close>. \<open>answer\<close>: the handler's
  response is written and the middleware observes the request, which, if it is for
  readiness, has its answer from the aggregator.
\<close>

inductive serve_step :: "(nat \<Rightarrow> incoming) \<Rightarrow> busy \<Rightarrow> busy \<Rightarrow> bool" for qs where
  arrive: "bz_stage b i = Expected \<Longrightarrow>
    serve_step qs b (b\<lparr>bz_stage := (bz_stage b)(i := Under_way (w_now (bz_world b)))\<rparr>)"
| work: "step (contexts qs) (bz_world b) w' \<Longrightarrow>
    (\<And>i. w_pc w' i \<noteq> w_pc (bz_world b) i \<Longrightarrow> asks_readiness (qs i) \<and> (\<exists>t. bz_stage b i = Under_way t)) \<Longrightarrow>
    serve_step qs b (worked b w')"
| answer: "bz_stage b i = Under_way t \<Longrightarrow>
    (asks_readiness (qs i) \<Longrightarrow> w_pc (bz_world b) i = Answered r) \<Longrightarrow>
    finish_request r (qs i) (w_now (bz_world b) - t) (w_now (bz_world b)) (bz_rn b) = (ops, rn) \<Longrightarrow>
    serve_step qs b (b\<lparr>bz_rn := rn, bz_stage := (bz_stage b)(i := Finished ops)\<rparr>)"

inductive_cases serve_stepE: "serve_step qs b b'"

definition serve_steps :: "(nat \<Rightarrow> incoming) \<Rightarrow> busy \<Rightarrow> busy \<Rightarrow> bool" where
  "serve_steps qs = (serve_step qs)\<^sup>*\<^sup>*"

lemma serve_steps_refl [simp]: "serve_steps qs b b"
  by (simp add: serve_steps_def)

lemma serve_steps_one: "serve_step qs b b' \<Longrightarrow> serve_steps qs b b'"
  by (simp add: serve_steps_def)

lemma serve_steps_trans: "serve_steps qs b b' \<Longrightarrow> serve_steps qs b' b'' \<Longrightarrow> serve_steps qs b b''"
  unfolding serve_steps_def by (rule rtranclp_trans)

lemma serve_steps_induct [consumes 1, case_names refl step]:
  assumes "serve_steps qs b b'" "P b"
    "\<And>c d. serve_steps qs b c \<Longrightarrow> serve_step qs c d \<Longrightarrow> P c \<Longrightarrow> P d"
  shows "P b'"
  using assms unfolding serve_steps_def by (induction rule: rtranclp_induct) auto

lemma worked_simps [serve_simps]:
  "bz_world (worked b w') = w'" "bz_stage (worked b w') = bz_stage b"
  "bz_rn (worked b w') =
     record_effects (new_effects (bz_world b) w') ((bz_rn b)\<lparr>rn_aggregator := w_ag w'\<rparr>)"
  by (simp_all add: worked_def)

section \<open>Facts about the aggregator's steps\<close>

lemma step_effects:
  assumes "step cx w w'"
  obtains "w_effects w' = w_effects w"
    | i t where "w_pc w i = Probing t" "w_pc w' i \<noteq> w_pc w i"
      "w_effects w' = w_effects w @ map (Pair (w_now w)) (round_effects (cx i) t w)"
      "\<And>j. j \<noteq> i \<Longrightarrow> w_pc w' j = w_pc w j"
  using assms by cases (auto simp: set_pc_simps)

lemma new_effects_append: "w_effects w' = w_effects w @ tes \<Longrightarrow> new_effects w w' = tes"
  by (simp add: new_effects_def)

lemma quiet_effects: "quiet cx w w' \<Longrightarrow> \<exists>tes. w_effects w' = w_effects w @ tes"
  unfolding quiet_def
proof (induction rule: rtranclp_induct)
  case (step w' w'')
  from step.hyps(2) step.IH show ?case by (auto elim: step_effects)
qed simp

text \<open>A caller inside \<open>Evaluate\<close>; one that has answered stays so.\<close>

fun inside :: "pc \<Rightarrow> bool" where
  "inside Idle = False"
| "inside (Answered _) = False"
| "inside _ = True"

lemma step_answered:
  "step cx w w' \<Longrightarrow> w_pc w j = Answered r \<Longrightarrow> w_pc w' j = Answered r"
  by (cases rule: step.cases, assumption) (auto simp: set_pc_simps)

lemma inside_iff: "inside p \<longleftrightarrow> p \<noteq> Idle \<and> (\<forall>r. p \<noteq> Answered r)"
  by (cases p) simp_all

lemma calm_step_inside:
  assumes "step cx w w'" "calm w w'" "w_pc w' j \<noteq> w_pc w j"
  shows "inside (w_pc w j)"
  using assms step_answered [OF assms(1)] by (auto simp: inside_iff calm_def)

section \<open>The invariant of the execution\<close>

text \<open>
  The world of a busy service is one of the aggregator's, its callers are exactly requests
  for readiness that have come, those inside are under way, and a finished one was written
  the answer that it got.
\<close>

definition busy_ok :: "(nat \<Rightarrow> incoming) \<Rightarrow> running \<Rightarrow> instant \<Rightarrow> busy \<Rightarrow> bool" where
  "busy_ok qs rn0 t0 b \<longleftrightarrow>
     steps (contexts qs) (initial (ag_opts (rn_aggregator rn0)) t0) (bz_world b) \<and>
     rn_aggregator (bz_rn b) = w_ag (bz_world b) \<and>
     rn_config (bz_rn b) = rn_config rn0 \<and> rn_logger (bz_rn b) = rn_logger rn0 \<and>
     (\<forall>i. w_pc (bz_world b) i \<noteq> Idle \<longrightarrow> asks_readiness (qs i) \<and> bz_stage b i \<noteq> Expected) \<and>
     (\<forall>i. inside (w_pc (bz_world b) i) \<longrightarrow> (\<exists>t. bz_stage b i = Under_way t)) \<and>
     (\<forall>i ops. bz_stage b i = Finished ops \<and> asks_readiness (qs i) \<longrightarrow>
        (\<exists>r. w_pc (bz_world b) i = Answered r \<and> ops = response_ops (readiness_response r)))"

lemma busy_okD:
  assumes "busy_ok qs rn0 t0 b"
  shows "steps (contexts qs) (initial (ag_opts (rn_aggregator rn0)) t0) (bz_world b)"
    "rn_aggregator (bz_rn b) = w_ag (bz_world b)"
    "rn_config (bz_rn b) = rn_config rn0" "rn_logger (bz_rn b) = rn_logger rn0"
    "w_pc (bz_world b) i \<noteq> Idle \<Longrightarrow> asks_readiness (qs i) \<and> bz_stage b i \<noteq> Expected"
    "inside (w_pc (bz_world b) i) \<Longrightarrow> \<exists>t. bz_stage b i = Under_way t"
    "bz_stage b i = Finished ops \<Longrightarrow> asks_readiness (qs i) \<Longrightarrow>
       \<exists>r. w_pc (bz_world b) i = Answered r \<and> ops = response_ops (readiness_response r)"
  using assms unfolding busy_ok_def by blast+

lemma opened_ok:
  assumes "rn_aggregator rn0 = new_aggregator opts"
  shows "busy_ok qs rn0 t0 (opened rn0 t0)"
  using assms steps.refl by (simp add: busy_ok_def opened_def initial_def new_aggregator_def)

lemma worked_ok:
  assumes "busy_ok qs rn0 t0 b" "step (contexts qs) (bz_world b) w'"
    and moved: "\<And>i. w_pc w' i \<noteq> w_pc (bz_world b) i \<Longrightarrow>
      asks_readiness (qs i) \<and> (\<exists>t. bz_stage b i = Under_way t)"
  shows "busy_ok qs rn0 t0 (worked b w')"
  unfolding busy_ok_def serve_simps
proof (intro conjI allI impI)
  note ok = busy_okD [OF assms(1)]
  show "steps (contexts qs) (initial (ag_opts (rn_aggregator rn0)) t0) w'"
    using ok(1) assms(2) by (rule steps.more)
  fix i
  show "asks_readiness (qs i)" "bz_stage b i \<noteq> Expected" if "w_pc w' i \<noteq> Idle"
    using moved [of i] ok(5) [of i] that by (cases "w_pc w' i = w_pc (bz_world b) i"; auto)+
  show "\<exists>t. bz_stage b i = Under_way t" if "inside (w_pc w' i)"
    using moved [of i] ok(6) [of i] that by (cases "w_pc w' i = w_pc (bz_world b) i") auto
  show "\<exists>r. w_pc w' i = Answered r \<and> ops = response_ops (readiness_response r)"
    if "bz_stage b i = Finished ops \<and> asks_readiness (qs i)" for ops
    using ok(7) [of i ops] that step_answered [OF assms(2)] by blast
qed (use busy_okD [OF assms(1)] in \<open>simp_all add: serve_simps\<close>)

lemma serve_step_ok:
  assumes "serve_step qs b b'" "busy_ok qs rn0 t0 b"
  shows "busy_ok qs rn0 t0 b'"
  using assms(1)
proof (cases rule: serve_step.cases)
  case (arrive i)
  with assms(2) show ?thesis by (auto simp: busy_ok_def)
next
  case (work w')
  with worked_ok [OF assms(2)] show ?thesis by blast
next
  case (answer i t r ops rn)
  have rn: "rn = snd (finish_request r (qs i) (w_now (bz_world b) - t) (w_now (bz_world b)) (bz_rn b))"
    and ops: "ops = fst (finish_request r (qs i) (w_now (bz_world b) - t) (w_now (bz_world b)) (bz_rn b))"
    using answer(4) by simp_all
  have "\<not> inside (w_pc (bz_world b) i)"
    using answer(3) busy_okD(5) [OF assms(2), of i] by (auto simp: inside_iff)
  with assms(2) answer(3) show ?thesis
    unfolding answer(1) by (auto simp: busy_ok_def rn ops serve_simps finish_ready)
qed

lemma serve_steps_ok:
  "serve_steps qs b b' \<Longrightarrow> busy_ok qs rn0 t0 b \<Longrightarrow> busy_ok qs rn0 t0 b'"
  by (induction rule: serve_steps_induct) (auto intro: serve_step_ok)

lemma started_ok:
  assumes "start_service gv commit prom lb cfg = Some rn0" "serve_steps qs (opened rn0 t0) b"
  shows "busy_ok qs rn0 t0 b"
  by (rule serve_steps_ok [OF assms(2)], rule opened_ok, rule started(3) [OF assms(1)])

text \<open>Seen from the aggregator, an execution of the service is one of the aggregator.\<close>

lemma serve_steps_world:
  "serve_steps qs b b' \<Longrightarrow> steps (contexts qs) (bz_world b) (bz_world b')"
proof (induction rule: serve_steps_induct)
  case (step c d)
  from step(2,3) show ?case by cases (auto simp: serve_simps intro: steps.more)
qed (rule steps.refl)

section \<open>Lifting executions of the aggregator\<close>

lemma record_effects_again:
  "record_effects tes' ((record_effects tes rn)\<lparr>rn_aggregator := a\<rparr>) =
     record_effects (tes @ tes') (rn\<lparr>rn_aggregator := a\<rparr>)"
  by (simp add: record_effects_def)

lemma worked_again:
  assumes "w_effects w' = w_effects (bz_world b) @ tes" "w_effects w'' = w_effects w' @ tes'"
  shows "worked (worked b w') w'' = worked b w''"
  using assms by (simp add: worked_def new_effects_def record_effects_again)

lemma worked_same: "rn_aggregator (bz_rn b) = w_ag (bz_world b) \<Longrightarrow> worked b (bz_world b) = b"
  by (simp add: worked_def new_effects_def record_effects_def)

text \<open>A quiet execution of the aggregator is one of the service, since only requests under way move.\<close>

lemma lift_quiet:
  assumes "quiet (contexts qs) (bz_world b) w'" "busy_ok qs rn0 t0 b"
  shows "serve_steps qs b (worked b w')"
  using assms(1) unfolding quiet_def
proof (induction rule: rtranclp_induct)
  case base
  show ?case using worked_same busy_okD(2) [OF assms(2)] by simp
next
  case (step w' w'')
  have ok: "busy_ok qs rn0 t0 (worked b w')" by (rule serve_steps_ok [OF step.IH assms(2)])
  have "serve_step qs (worked b w') (worked (worked b w') w'')"
  proof (rule serve_step.work)
    show "step (contexts qs) (bz_world (worked b w')) w''" using step.hyps(2) by (simp add: serve_simps)
    fix i
    assume "w_pc w'' i \<noteq> w_pc (bz_world (worked b w')) i"
    then have "inside (w_pc (bz_world (worked b w')) i)"
      using calm_step_inside [of "contexts qs" w' w'' i] step.hyps(2) by (simp add: serve_simps)
    with busy_okD(5,6) [OF ok, of i] show "asks_readiness (qs i) \<and> (\<exists>t. bz_stage (worked b w') i = Under_way t)"
      by (auto simp: inside_iff)
  qed
  moreover have "worked (worked b w') w'' = worked b w''"
  proof -
    from step.hyps(1) have "quiet (contexts qs) (bz_world b) w'" by (simp add: quiet_def)
    from quiet_effects [OF this] obtain tes where "w_effects w' = w_effects (bz_world b) @ tes" by blast
    moreover from step.hyps(2) quiet_effects [OF quiet_one, of "contexts qs" w' w'']
    obtain tes' where "w_effects w'' = w_effects w' @ tes'" by blast
    ultimately show ?thesis by (rule worked_again)
  qed
  ultimately show ?case using step.IH serve_steps_trans [OF _ serve_steps_one] by metis
qed

section \<open>One request at a time\<close>

lemma serve_request_unfold:
  "serve_request rn q =
     (let (r, es, a) = evaluate (request_context q) (in_at q) (rn_aggregator rn);
          answered = (if asks_readiness q then answer_time (request_context q) (in_at q) (rn_aggregator rn)
                      else in_at q)
      in finish_request r q (answered + in_overhead q - in_at q) (answered + in_overhead q)
           (if asks_readiness q
            then record_effects (map (Pair answered) es) (rn\<lparr>rn_aggregator := a\<rparr>) else rn))"
  by (simp add: serve_request_def Let_def split_beta serve_simps record_effects_def)

text \<open>Waiting costs nothing but time.\<close>

lemma wait_step:
  assumes "0 \<le> d"
  shows "serve_step qs b (worked b ((bz_world b)\<lparr>w_now := w_now (bz_world b) + d\<rparr>))"
  using step.tick [OF assms] by (rule serve_step.work) simp

text \<open>The way of a request for readiness through the aggregator, when no flight is under way.\<close>

lemma evaluate_execution:
  fixes b qs i
  defines "res \<equiv> evaluate (request_context (qs i)) (w_now (bz_world b)) (w_ag (bz_world b))"
  assumes "busy_ok qs rn0 t0 b" "bz_stage b i = Under_way t" "asks_readiness (qs i)"
    and "w_pc (bz_world b) i = Idle" "w_flight (bz_world b) = None"
  obtains w' where "serve_steps qs b (worked b w')" "w_pc w' i = Answered (fst res)"
    "w_ag w' = snd (snd res)"
    "w_now w' = answer_time (request_context (qs i)) (w_now (bz_world b)) (w_ag (bz_world b))"
    "w_effects w' = w_effects (bz_world b) @ map (Pair (w_now w')) (fst (snd res))"
proof -
  let ?w = "bz_world b"
  from evaluate_agrees [OF assms(5,6), of "contexts qs"] obtain p where
    first: "step (contexts qs) ?w (set_pc ?w i p)"
    and "agrees (contexts qs) (set_pc ?w i p) i
      (answer_time (request_context (qs i)) (w_now ?w) (w_ag ?w)) res"
    by (auto simp: contexts_def res_def)
  then obtain w' where w': "quiet (contexts qs) (set_pc ?w i p) w'" "w_pc w' i = Answered (fst res)"
    "w_ag w' = snd (snd res)"
    "w_now w' = answer_time (request_context (qs i)) (w_now ?w) (w_ag ?w)"
    "w_effects w' = w_effects ?w @ map (Pair (w_now w')) (fst (snd res))"
    by (auto simp: agrees_def set_pc_simps)
  have enter: "serve_step qs b (worked b (set_pc ?w i p))"
    by (rule serve_step.work [OF first]) (use assms(3,4) in \<open>auto simp: set_pc_simps split: if_splits\<close>)
  have "serve_steps qs (worked b (set_pc ?w i p)) (worked (worked b (set_pc ?w i p)) w')"
    by (rule lift_quiet [OF _ serve_step_ok [OF enter assms(2)]]) (simp add: serve_simps w'(1))
  moreover have "worked (worked b (set_pc ?w i p)) w' = worked b w'"
    using w'(5) by (intro worked_again [of _ _ "[]"]) (simp_all add: set_pc_simps)
  ultimately have "serve_steps qs b (worked b w')"
    using enter serve_steps_trans [OF serve_steps_one] by metis
  from that [OF this w'(2-5)] show thesis .
qed

lemma request_execution:
  fixes b qs i
  defines "res \<equiv> serve_request (bz_rn b) (qs i)"
  assumes "busy_ok qs rn0 t0 b" "bz_stage b i = Expected" "w_flight (bz_world b) = None"
    "w_now (bz_world b) = in_at (qs i)" "0 \<le> in_overhead (qs i)"
  obtains b' where "serve_steps qs b b'" "bz_stage b' = (bz_stage b)(i := Finished (fst res))"
    "bz_rn b' = snd res"
proof -
  let ?w = "bz_world b" and ?q = "qs i"
  let ?ev = "evaluate (request_context ?q) (in_at ?q) (w_ag ?w)"
  let ?b1 = "b\<lparr>bz_stage := (bz_stage b)(i := Under_way (in_at ?q))\<rparr>"
  have ag: "rn_aggregator (bz_rn b) = w_ag ?w" by (rule busy_okD(2) [OF assms(2)])
  have arrive: "serve_step qs b ?b1" using serve_step.arrive [OF assms(3), of qs] by (simp add: assms(5))
  have idle: "w_pc ?w i = Idle" using busy_okD(5) [OF assms(2), of i] assms(3) by blast
  obtain w' tes where w': "serve_steps qs ?b1 (worked ?b1 w')"
    "asks_readiness ?q \<Longrightarrow> w_pc w' i = Answered (fst ?ev)"
    "w_effects w' = w_effects ?w @ tes"
    "w_now w' = (if asks_readiness ?q then answer_time (request_context ?q) (in_at ?q) (w_ag ?w) else in_at ?q)"
    "record_effects tes ((bz_rn b)\<lparr>rn_aggregator := w_ag w'\<rparr>) = (if asks_readiness ?q
       then record_effects (map (Pair (w_now w')) (fst (snd ?ev))) ((bz_rn b)\<lparr>rn_aggregator := snd (snd ?ev)\<rparr>)
       else bz_rn b)"
  proof (cases "asks_readiness ?q")
    case True
    have "busy_ok qs rn0 t0 ?b1" by (rule serve_step_ok [OF arrive assms(2)])
    moreover have "bz_stage ?b1 i = Under_way (in_at ?q)" "w_pc (bz_world ?b1) i = Idle"
      "w_flight (bz_world ?b1) = None" "bz_world ?b1 = ?w" using idle assms(4) by simp_all
    ultimately obtain v where "serve_steps qs ?b1 (worked ?b1 v)" "w_pc v i = Answered (fst ?ev)"
      "w_ag v = snd (snd ?ev)" "w_now v = answer_time (request_context ?q) (in_at ?q) (w_ag ?w)"
      "w_effects v = w_effects ?w @ map (Pair (w_now v)) (fst (snd ?ev))"
      using evaluate_execution [of qs rn0 t0 ?b1 i "in_at ?q"] True assms(5) by metis
    with True show ?thesis by (intro that [of v "map (Pair (w_now v)) (fst (snd ?ev))"]) simp_all
  next
    case False
    from that [of ?w "[]"] worked_same [of ?b1] False ag assms(5) show ?thesis
      by (simp add: record_effects_def)
  qed
  let ?w2 = "w'\<lparr>w_now := w_now w' + in_overhead ?q\<rparr>"
  let ?b2 = "worked (worked ?b1 w') ?w2"
  have wait: "serve_step qs (worked ?b1 w') ?b2"
    using wait_step [OF assms(6), of qs "worked ?b1 w'"] by (simp add: serve_simps)
  have rn: "bz_rn ?b2 = (if asks_readiness ?q
      then record_effects (map (Pair (w_now w')) (fst (snd ?ev))) ((bz_rn b)\<lparr>rn_aggregator := snd (snd ?ev)\<rparr>)
      else bz_rn b)"
    using worked_again [of w' ?b1 tes ?w2 "[]"] w'(3,5) by (simp add: serve_simps new_effects_def)
  have "res = finish_request (fst ?ev) ?q (w_now ?w2 - in_at ?q) (w_now ?w2) (bz_rn ?b2)"
    unfolding res_def serve_request_unfold Let_def split_beta rn ag using w'(4) by simp
  moreover have "serve_step qs ?b2 (?b2\<lparr>bz_rn := snd res, bz_stage := (bz_stage ?b2)(i := Finished (fst res))\<rparr>)"
    by (rule serve_step.answer [where t = "in_at ?q" and r = "fst ?ev"])
      (use w'(2) calculation in \<open>simp_all add: serve_simps\<close>)
  ultimately show thesis
    using that [of "?b2\<lparr>bz_rn := snd res, bz_stage := (bz_stage ?b2)(i := Finished (fst res))\<rparr>"]
      serve_steps_trans [OF serve_steps_one [OF arrive] serve_steps_trans [OF w'(1)
        serve_steps_trans [OF serve_steps_one [OF wait] serve_steps_one]]]
    by (simp add: serve_simps)
qed

end
