(* ===== verification/Service_Concurrent_Properties.thy ===== *)
theory Service_Concurrent_Properties
  imports Service_Concurrent
begin

text \<open>
  The properties of the running service under requests that overlap: what readiness requests
  are answered, whose identifiers are on the log lines, that every request can be finished,
  and that the service of \<open>Service\<close>, which handles one request at a time, is one of its
  executions.
\<close>

section \<open>Answers\<close>

text \<open>The results that a caller holds.\<close>

fun held :: "pc \<Rightarrow> health_result list" where
  "held (Publishing r) = [r]"
| "held (Landed r) = [r]"
| "held (Returned r) = [r]"
| "held (Answered r) = [r]"
| "held _ = []"

definition all_results :: "(health_result \<Rightarrow> bool) \<Rightarrow> world \<Rightarrow> bool" where
  "all_results ok w \<longleftrightarrow> (\<forall>i. list_all ok (held (w_pc w i))) \<and> (\<forall>r. ag_cached (w_ag w) = Some r \<longrightarrow> ok r)"

lemma all_results_set_pc:
  "all_results ok w \<Longrightarrow> list_all ok (held p) \<Longrightarrow> all_results ok (set_pc w i p)"
  by (simp add: all_results_def set_pc_simps)

lemma all_results_update:
  "all_results ok (w\<lparr>w_now := n\<rparr>) = all_results ok w" "all_results ok (w\<lparr>w_flight := f\<rparr>) = all_results ok w"
  "all_results ok (w\<lparr>w_effects := es\<rparr>) = all_results ok w"
  "all_results ok (w\<lparr>w_ag := begin_shutdown (w_ag w)\<rparr>) = all_results ok w"
  "all_results ok (w\<lparr>w_ag := (w_ag w)\<lparr>ag_check_rounds := n'\<rparr>, w_rounds := ts\<rparr>) = all_results ok w"
  by (simp_all add: all_results_def begin_shutdown_def)

text \<open>
  What the two sources of results promise of them, the end of a round and the refusal during
  a shutdown, holds of every result that anybody is ever given.
\<close>

locale result_promise =
  fixes opts :: aggregator_options and ok :: "health_result \<Rightarrow> bool"
  assumes round: "ag_opts (w_ag w) = opts \<Longrightarrow> ok (round_result ctx t w)"
    and refusal: "ag_opts a = opts \<Longrightarrow> (\<And>r. ag_cached a = Some r \<Longrightarrow> ok r) \<Longrightarrow> ok (shutdown_result a u)"
begin

lemma step_keeps:
  assumes "step cx w w'" "ag_opts (w_ag w) = opts" "all_results ok w"
  shows "all_results ok w'"
proof -
  have kept: "ok r" if "fresh (w_ag w) u = Some r" for r u
    using fresh_cached [OF that] assms(3) by (simp add: all_results_def)
  have down: "ok (shutdown_result (w_ag w) u)" for u
    using refusal [OF assms(2)] assms(3) by (simp add: all_results_def)
  have own: "list_all ok (held (w_pc w i))" for i
    using assms(3) by (simp add: all_results_def)
  from assms(1) show ?thesis
  proof (cases rule: step.cases)
    case (publish i r)
    with own [of i] assms(3) show ?thesis by (auto simp: all_results_def set_pc_simps)
  next
    case (land i r)
    with own [of i] assms(3) show ?thesis by (auto simp: all_results_def)
  next
    case (recheck i r)
    with own [of i] assms(3) show ?thesis by (auto intro: all_results_set_pc)
  qed (use assms(3) in \<open>auto intro!: all_results_set_pc kept down round [OF assms(2)] simp: all_results_update\<close>)
qed

lemma reachable:
  assumes "steps cx (initial opts t0) w"
  shows "all_results ok w"
proof -
  have "all_results ok w' \<and> ag_opts (w_ag w') = opts"
    if "steps cx w w'" "all_results ok w" "ag_opts (w_ag w) = opts" for w w'
    using that by (induction rule: steps.induct) (auto simp: step_opts dest: step_keeps)
  from this [OF assms] show ?thesis by (simp add: all_results_def initial_def new_aggregator_def)
qed

end

interpretation conforming: result_promise "service_options lb cfg" "\<lambda>r. timely lb \<longrightarrow> result_ok r" for lb cfg
proof
  show "timely lb \<longrightarrow> result_ok (round_result ctx t w)" if "ag_opts (w_ag w) = service_options lb cfg" for w ctx t
    using round_result_ok [OF _ that] by (simp add: round_result_def result_ok_def)
  show "timely lb \<longrightarrow> result_ok (shutdown_result a u)"
    if "ag_opts a = service_options lb cfg" "\<And>r. ag_cached a = Some r \<Longrightarrow> timely lb \<longrightarrow> result_ok r" for a u
    using refusal_ok [OF that(1)] that(2) by blast
qed

text \<open>A request for readiness is written the response of a result for which the promise holds.\<close>

lemma finished_result:
  assumes "start_service gv commit prom lb cfg = Some rn0" "serve_steps qs (opened rn0 t0) b"
    and "bz_stage b i = Finished ops" "rq_path (in_request (qs i)) = ''/v1/health/ready''"
    and "\<And>cx w. steps cx (initial (service_options lb cfg) t0) w \<Longrightarrow> all_results ok w"
  obtains r where "ok r" "ops = response_ops (readiness_response r)"
proof -
  note busy = started_ok [OF assms(1,2)]
  have "asks_readiness (qs i)" using assms(4) by (simp add: asks_readiness_def ready_path_def)
  from busy_okD(7) [OF busy assms(3) this]
  obtain r where r: "w_pc (bz_world b) i = Answered r" "ops = response_ops (readiness_response r)" by blast
  have "ag_opts (rn_aggregator rn0) = service_options lb cfg"
    by (simp add: started(3) [OF assms(1)] new_aggregator_def service_options_def)
  with assms(5) busy_okD(1) [OF busy] have "all_results ok (bz_world b)" by simp
  then have "list_all ok (held (w_pc (bz_world b) i))" by (simp add: all_results_def)
  with r that show thesis by simp
qed

text \<open>
  C6: What readiness requests are answered while others overlap with them: one JSON document
  that conforms to the schema of the contract, with all three dependencies, with the code 200
  exactly when it says ready; and it says ready only with no shutdown under way and every
  dependency healthy.
\<close>

theorem overlapping_answers_conform:
  assumes "start_service gv commit prom lb cfg = Some rn0" and "timely lb"
    and "serve_steps qs (opened rn0 t0) b"
    and "bz_stage b i = Finished ops" and "rq_path (in_request (qs i)) = ''/v1/health/ready''"
  shows "\<exists>j. readiness_schema j \<and>
    ops =
      [SetHeader ''Content-Type'' ''application/json'', SetHeader ''Cache-Control'' ''no-store'',
       WriteHeader (if member j ''status'' = Some (JStr ''ready'') then 200 else 503),
       Write (render encoder_escaping j @ [CHR 0x0A])] \<and>
    (member j ''status'' = Some (JStr ''ready'') \<longrightarrow> member j ''shutting_down'' = None \<and>
       list_all (\<lambda>d. member d ''healthy'' = Some (JBool True)) (elements (member j ''dependencies'')))"
proof -
  obtain r where r: "timely lb \<longrightarrow> result_ok r" "ops = response_ops (readiness_response r)"
    by (rule finished_result [OF assms(1,3-5) conforming.reachable])
  with assms(2) have "result_ok r" by blast
  from result_ok_served [OF this] r(2) show ?thesis by simp
qed

text \<open>
  Requests for readiness at a service that logs everything, and the execution in which the
  first of them has been handled.
\<close>

definition example_requests :: "nat \<Rightarrow> incoming" where
  "example_requests i = example_request ready_path"

definition example_config :: config where
  "example_config = (default_config worker_defaults)\<lparr>cfg_log_level := ''debug''\<rparr>"

lemma example_opened:
  obtains rn0 where "start_service ''go1.26'' ''unknown'' (\<lambda>_. not_found) lb example_config = Some rn0"
    "rn_logger rn0 = new_logger (logger_options example_config)"
    "rn_aggregator rn0 = new_aggregator (service_options lb example_config)"
proof -
  obtain rn0 where "start_service ''go1.26'' ''unknown'' (\<lambda>_. not_found) lb example_config = Some rn0"
    using service_starts by blast
  from that [OF this started(2,3) [OF this, folded service_options_def]] show thesis .
qed

lemma example_execution:
  obtains rn0 b where
    "start_service ''go1.26'' ''unknown'' (\<lambda>_. not_found) lb example_config = Some rn0"
    "rn_logger rn0 = new_logger (logger_options example_config)"
    "serve_steps example_requests (opened rn0 1000) b"
    "bz_stage b 0 = Finished (fst (serve_request rn0 (example_requests 0)))"
    "bz_rn b = snd (serve_request rn0 (example_requests 0))"
proof -
  obtain rn0 where rn0: "start_service ''go1.26'' ''unknown'' (\<lambda>_. not_found) lb example_config = Some rn0"
    "rn_logger rn0 = new_logger (logger_options example_config)"
    "rn_aggregator rn0 = new_aggregator (service_options lb example_config)"
    by (rule example_opened)
  have "busy_ok example_requests rn0 1000 (opened rn0 1000)"
    by (rule opened_ok) (rule rn0(3))
  moreover have "bz_stage (opened rn0 1000) 0 = Expected" "w_flight (bz_world (opened rn0 1000)) = None"
    "w_now (bz_world (opened rn0 1000)) = in_at (example_requests 0)"
    "0 \<le> in_overhead (example_requests 0)" "bz_rn (opened rn0 1000) = rn0"
    by (simp_all add: opened_def initial_def example_requests_def example_request_def)
  ultimately show thesis
    using request_execution [of example_requests rn0 1000 "opened rn0 1000" 0] that [OF rn0(1,2)]
    by (metis fun_upd_same)
qed

lemma example_logs:
  assumes "rn_logger rn = new_logger (logger_options example_config)"
  shows "rn_output (snd (serve_request rn q)) \<noteq> []"
proof -
  have "fst (parse_level (opt_level (logger_options example_config))) = level_debug"
    by (simp add: example_config_def logger_options_def) code_simp
  with assms show ?thesis
    by (auto simp: serve_request_unfold finish_request_def Let_def split_beta event_lines_def observe_def
        record_line serve_simps)
qed

lemma timely_steady: "timely steady_libraries"
  by (simp add: timely_def steady_libraries_def)

lemma example_path: "rq_path (in_request (example_requests i)) = ''/v1/health/ready''"
  by (simp add: example_requests_def example_request_def ready_path_def)

theorem overlapping_answers_conform_witness:
  "\<exists>rn0 b ops j. start_service ''go1.26'' ''unknown'' (\<lambda>_. not_found) steady_libraries example_config = Some rn0 \<and>
     serve_steps example_requests (opened rn0 1000) b \<and> bz_stage b 0 = Finished ops \<and> readiness_schema j \<and>
     last ops = Write (render encoder_escaping j @ [CHR 0x0A])"
proof -
  obtain rn0 b where ex:
    "start_service ''go1.26'' ''unknown'' (\<lambda>_. not_found) steady_libraries example_config = Some rn0"
    "serve_steps example_requests (opened rn0 1000) b"
    "bz_stage b 0 = Finished (fst (serve_request rn0 (example_requests 0)))"
    by (rule example_execution)
  from overlapping_answers_conform [OF ex(1) timely_steady ex(2,3) example_path] ex
  show ?thesis by (metis last.simps list.distinct(1))
qed

section \<open>Log lines\<close>

text \<open>Only request \<open>i\<close> moves in a step, from \<open>b\<close> to \<open>b'\<close>, and it was under way.\<close>

definition moves_alone :: "nat \<Rightarrow> busy \<Rightarrow> busy \<Rightarrow> bool" where
  "moves_alone i b b' \<longleftrightarrow> (\<exists>t. bz_stage b i = Under_way t) \<and>
     (\<forall>j. j \<noteq> i \<longrightarrow> bz_stage b' j = bz_stage b j \<and> w_pc (bz_world b') j = w_pc (bz_world b) j)"

text \<open>A step adds no line, or lines of the only request that moves in it.\<close>

definition adds_lines :: "(nat \<Rightarrow> incoming) \<Rightarrow> log_options \<Rightarrow> busy \<Rightarrow> busy \<Rightarrow> bool" where
  "adds_lines qs opts b b' \<longleftrightarrow> (\<exists>i ls. rn_output (bz_rn b') = rn_output (bz_rn b) @ ls \<and>
     list_all (line_of_request opts (request_trace_id (qs i))) ls \<and> (ls = [] \<or> moves_alone i b b'))"

lemma adds_none: "rn_output (bz_rn b') = rn_output (bz_rn b) \<Longrightarrow> adds_lines qs opts b b'"
  by (simp add: adds_lines_def)

lemma worked_lines:
  assumes "rn_logger (bz_rn b) = new_logger opts" "step (contexts qs) (bz_world b) w'"
    and moved: "\<And>i. w_pc w' i \<noteq> w_pc (bz_world b) i \<Longrightarrow>
      asks_readiness (qs i) \<and> (\<exists>t. bz_stage b i = Under_way t)"
  shows "adds_lines qs opts b (worked b w')"
  using assms(2)
proof (cases rule: step_effects)
  case 1
  then show ?thesis by (intro adds_none) (simp add: serve_simps new_effects_def)
next
  case (2 i t)
  let ?es = "round_effects (contexts qs i) t (bz_world b)" and ?rn = "(bz_rn b)\<lparr>rn_aggregator := w_ag w'\<rparr>"
  have es: "\<forall>ctx' l msg as. LogEvent ctx' l msg as \<in> set ?es \<longrightarrow> ctx' = request_context (qs i)"
    using evaluate_now_context unfolding round_effects_def contexts_def by blast
  have log: "rn_logger ?rn = new_logger opts" using assms(1) by simp
  from record_effects_lines [OF log es, of "w_now (bz_world b)"] obtain ls
    where "rn_output (bz_rn (worked b w')) = rn_output (bz_rn b) @ ls"
      "list_all (line_of_request opts (request_trace_id (qs i))) ls"
    using new_effects_append [OF 2(3)] by (auto simp: worked_simps(3))
  moreover have "moves_alone i b (worked b w')"
    using moved [OF 2(2)] 2(4) by (simp add: moves_alone_def serve_simps)
  ultimately show ?thesis unfolding adds_lines_def by blast
qed

lemma serve_step_lines:
  assumes "serve_step qs b b'" "rn_logger (bz_rn b) = new_logger opts"
  shows "adds_lines qs opts b b'"
  using assms(1)
proof (cases rule: serve_step.cases)
  case (arrive i)
  then show ?thesis by (intro adds_none) simp
next
  case (work w')
  with worked_lines [OF assms(2)] show ?thesis by blast
next
  case (answer i t r ops rn)
  have rn: "rn = snd (finish_request r (qs i) (w_now (bz_world b) - t) (w_now (bz_world b)) (bz_rn b))"
    using answer(4) by simp
  from finish_request_lines [OF assms(2), of r "qs i" "w_now (bz_world b) - t" "w_now (bz_world b)"] obtain ls
    where "rn_output rn = rn_output (bz_rn b) @ ls" "list_all (line_of_request opts (request_trace_id (qs i))) ls"
    by (auto simp: rn)
  moreover have "moves_alone i b b'" using answer(1,2) by (simp add: moves_alone_def)
  ultimately show ?thesis unfolding adds_lines_def answer(1) by auto
qed

text \<open>
  C8: Correlation while requests overlap: every line that is added to the log, by whatever step,
  is one record with the fields of the log contract that names the configured service and
  version and carries the identifier of the very request that takes the step; a line about a
  failed dependency carries the one of the request that led the round, also when others
  wait for it.
\<close>

theorem overlapping_lines_correlate:
  assumes "start_service gv commit prom lb cfg = Some rn0"
    and "serve_steps qs (opened rn0 t0) b" and "serve_step qs b b'"
  shows "\<exists>i lines. rn_output (bz_rn b') = rn_output (bz_rn b) @ lines \<and>
    list_all (\<lambda>line. \<exists>t l msg as. line = render slog_escaping (JObj
       ([(''time'', JStr (format_millis t)), (''level'', JStr (level_string l)), (''msg'', JStr msg),
         (''service'', JStr (cfg_service_name cfg)), (''version'', JStr (cfg_version cfg))] @
        map (\<lambda>a. field_of (replace_attr [] a)) as @
        [(''trace_id'', JStr (trace_id_string (request_trace_id (qs i))))])) @ [CHR 0x0A]) lines \<and>
    (lines = [] \<or> (\<exists>t. bz_stage b i = Under_way t) \<and>
       (\<forall>j. j \<noteq> i \<longrightarrow> bz_stage b' j = bz_stage b j \<and> w_pc (bz_world b') j = w_pc (bz_world b) j))"
proof -
  have "rn_logger (bz_rn b) = new_logger (logger_options cfg)"
    by (simp add: busy_okD(4) [OF started_ok [OF assms(1,2)]] started(2) [OF assms(1)])
  from serve_step_lines [OF assms(3) this] show ?thesis
    by (simp only: adds_lines_def moves_alone_def line_of_request_def [abs_def] service_line_def
        logger_options_def log_options.simps)
qed

text \<open>The last step of the example writes the lines of the request.\<close>

lemma example_last_step:
  obtains rn0 b b' where
    "start_service ''go1.26'' ''unknown'' (\<lambda>_. not_found) steady_libraries example_config = Some rn0"
    "serve_steps example_requests (opened rn0 1000) b" "serve_step example_requests b b'"
    "rn_output (bz_rn b) = []" "rn_output (bz_rn b') \<noteq> []"
proof -
  obtain rn0 b where ex:
    "start_service ''go1.26'' ''unknown'' (\<lambda>_. not_found) steady_libraries example_config = Some rn0"
    "rn_logger rn0 = new_logger (logger_options example_config)"
    "serve_steps example_requests (opened rn0 1000) b"
    "bz_rn b = snd (serve_request rn0 (example_requests 0))"
    by (rule example_execution)
  have "rn_output (bz_rn b) = [] \<or> (\<exists>c d. serve_steps example_requests (opened rn0 1000) c \<and>
      serve_step example_requests c d \<and> rn_output (bz_rn c) = [] \<and> rn_output (bz_rn d) \<noteq> [])"
    using ex(3)
  proof (induction rule: serve_steps_induct)
    case refl
    show ?case by (simp add: opened_def started(6) [OF ex(1)])
  qed blast
  moreover have "rn_output (bz_rn b) \<noteq> []" unfolding ex(4) by (rule example_logs [OF ex(2)])
  ultimately have "\<exists>c d. serve_steps example_requests (opened rn0 1000) c \<and> serve_step example_requests c d \<and>
      rn_output (bz_rn c) = [] \<and> rn_output (bz_rn d) \<noteq> []" by blast
  with that [OF ex(1)] show thesis by blast
qed

theorem overlapping_lines_correlate_witness:
  "\<exists>rn0 b b'. serve_steps example_requests (opened rn0 1000) b \<and> serve_step example_requests b b' \<and>
     rn_output (bz_rn b') \<noteq> [] \<and>
     list_all (\<lambda>line. \<exists>t l msg as. line = service_line (logger_options example_config)
       (replicate 15 0 @ [1]) t l msg as) (rn_output (bz_rn b'))"
proof -
  obtain rn0 b b' where ex:
    "start_service ''go1.26'' ''unknown'' (\<lambda>_. not_found) steady_libraries example_config = Some rn0"
    "serve_steps example_requests (opened rn0 1000) b" "serve_step example_requests b b'"
    "rn_output (bz_rn b) = []" "rn_output (bz_rn b') \<noteq> []"
    by (rule example_last_step)
  have "request_trace_id (example_request ready_path) = replicate 15 0 @ [1]" by code_simp
  then have "request_trace_id (example_requests i) = replicate 15 0 @ [1]" for i
    by (simp add: example_requests_def)
  with overlapping_lines_correlate [OF ex(1-3)] ex(2-5) show ?thesis
    by (simp only: service_line_def logger_options_def log_options.simps append_Nil) blast
qed

section \<open>The gate\<close>

text \<open>
  C19: Once the gate is closed, every request for readiness is answered 503 that comes later,
  or that is already waiting for a round, running one or about to get its result: all but one
  that is just between the gate and the cache, or has its answer already.
\<close>

theorem closed_gate_refuses_overlapping:
  assumes "start_service gv commit prom lb cfg = Some rn0" and "serve_steps qs (opened rn0 t0) b"
    and "ag_shutting_down (rn_aggregator (bz_rn b))" and "w_pc (bz_world b) i \<noteq> Checked"
    and "\<forall>r. w_pc (bz_world b) i \<noteq> Answered r"
    and "serve_steps qs b b'" and "bz_stage b' i = Finished ops"
    and "rq_path (in_request (qs i)) = ''/v1/health/ready''"
  shows "client_status ops = 503"
proof -
  note ok = started_ok [OF assms(1,2)]
  have ready: "asks_readiness (qs i)" using assms(8) by (simp add: asks_readiness_def ready_path_def)
  have down: "ag_shutting_down (w_ag (bz_world b))" using assms(3) by (simp add: busy_okD(2) [OF ok])
  from busy_okD(7) [OF serve_steps_ok [OF assms(6) ok] assms(7) ready]
  obtain r where r: "w_pc (bz_world b') i = Answered r" "ops = response_ops (readiness_response r)"
    by blast
  have "gated (w_pc (bz_world b) i)" using assms(4,5) by (cases "w_pc (bz_world b) i") auto
  from steps_gated [OF serve_steps_world [OF assms(6)] down this] r(1)
  have "res_status r = status_not_ready" by simp
  with r(2) show ?thesis
    by (simp add: response_ops_def readiness_response_def status_ready_def status_not_ready_def
        split: prod.splits)
qed

text \<open>The gate closes before the first request comes, which is then handled.\<close>

lemma example_gated:
  obtains rn0 b b' ops where
    "start_service ''go1.26'' ''unknown'' (\<lambda>_. not_found) steady_libraries example_config = Some rn0"
    "serve_steps example_requests (opened rn0 1000) b" "ag_shutting_down (rn_aggregator (bz_rn b))"
    "\<forall>i. w_pc (bz_world b) i = Idle" "bz_rn b = close_gate rn0"
    "serve_steps example_requests b b'" "bz_stage b' 0 = Finished ops"
proof -
  obtain rn0 where rn0: "start_service ''go1.26'' ''unknown'' (\<lambda>_. not_found) steady_libraries example_config = Some rn0"
    "rn_aggregator rn0 = new_aggregator (service_options steady_libraries example_config)"
    by (rule example_opened)
  let ?w = "bz_world (opened rn0 1000)"
  let ?b = "worked (opened rn0 1000) (?w\<lparr>w_ag := begin_shutdown (w_ag ?w)\<rparr>)"
  have close: "serve_step example_requests (opened rn0 1000) ?b"
    by (rule serve_step.work [OF step.begin_down]) simp
  have "busy_ok example_requests rn0 1000 ?b"
    by (rule serve_step_ok [OF close], rule opened_ok, rule rn0(2))
  moreover have "bz_stage ?b 0 = Expected" "w_flight (bz_world ?b) = None"
    "w_now (bz_world ?b) = in_at (example_requests 0)" "0 \<le> in_overhead (example_requests 0)"
    by (simp_all add: opened_def initial_def example_requests_def example_request_def serve_simps)
  ultimately obtain b' where "serve_steps example_requests ?b b'"
    "bz_stage b' 0 = Finished (fst (serve_request (bz_rn ?b) (example_requests 0)))"
    by (metis request_execution fun_upd_same)
  from that [OF rn0(1) serve_steps_one [OF close] _ _ _ this] show thesis
    using rn0(2) by (simp add: serve_simps begin_shutdown_def opened_def initial_def new_effects_def
        record_effects_def close_gate_def step_effect_def new_aggregator_def)
qed

theorem closed_gate_refuses_overlapping_witness:
  "\<exists>rn0 b ops. serve_steps example_requests (opened rn0 1000) b \<and>
     bz_stage b 0 = Finished ops \<and> client_status ops = 503"
proof -
  obtain rn0 b b' ops where ex:
    "start_service ''go1.26'' ''unknown'' (\<lambda>_. not_found) steady_libraries example_config = Some rn0"
    "serve_steps example_requests (opened rn0 1000) b" "ag_shutting_down (rn_aggregator (bz_rn b))"
    "\<forall>i. w_pc (bz_world b) i = Idle" "serve_steps example_requests b b'" "bz_stage b' 0 = Finished ops"
    by (rule example_gated)
  from closed_gate_refuses_overlapping [OF ex(1-3) _ _ ex(5,6) example_path] ex(4)
  have "client_status ops = 503" by simp
  with serve_steps_trans [OF ex(2,5)] ex(6) show ?thesis by blast
qed

section \<open>Progress\<close>

text \<open>A request that was begun can get its answer while nothing else comes or is finished.\<close>

lemma can_be_answered:
  assumes "busy_ok qs rn0 t0 b" "bz_stage b i = Under_way t"
  obtains b' r where "serve_steps qs b b'" "bz_stage b' = bz_stage b"
    "asks_readiness (qs i) \<Longrightarrow> w_pc (bz_world b') i = Answered r"
proof (cases "asks_readiness (qs i)")
  case True
  note result = that
  have called: thesis if "busy_ok qs rn0 t0 c" "w_pc (bz_world c) i \<noteq> Idle"
    "serve_steps qs b c" "bz_stage c = bz_stage b" for c
  proof -
    have "flight_ok (bz_world c)" by (rule reachable_ok(1) [OF busy_okD(1) [OF that(1)]])
    from can_answer_called [OF this that(2), of "contexts qs"] obtain w' r
      where w': "quiet (contexts qs) (bz_world c) w'" "w_pc w' i = Answered r"
      unfolding can_answer_def by blast
    from that(3) lift_quiet [OF w'(1) that(1)] have "serve_steps qs b (worked c w')"
      by (rule serve_steps_trans)
    from result [OF this] w'(2) that(4) show thesis by (simp add: serve_simps)
  qed
  show thesis
  proof (cases "w_pc (bz_world b) i = Idle")
    case False
    then show thesis by (rule called [OF assms(1) _ serve_steps_refl HOL.refl])
  next
    case idle: True
    obtain p where p: "step (contexts qs) (bz_world b) (set_pc (bz_world b) i p)" "p \<noteq> Idle"
      using step.refuse [OF idle] step.enter [OF idle] by blast
    have "serve_step qs b (worked b (set_pc (bz_world b) i p))"
      by (rule serve_step.work [OF p(1)]) (use True assms(2) in \<open>auto simp: set_pc_simps split: if_splits\<close>)
    from called [OF serve_step_ok [OF this assms(1)] _ serve_steps_one [OF this]] p(2)
    show thesis by (simp add: serve_simps set_pc_simps)
  qed
next
  case False
  with that [OF serve_steps_refl HOL.refl] show thesis by blast
qed

lemma can_be_finished:
  assumes "busy_ok qs rn0 t0 b" "bz_stage b i = Under_way t"
  obtains b' ops where "serve_steps qs b b'" "bz_stage b' = (bz_stage b)(i := Finished ops)"
proof -
  from can_be_answered [OF assms] obtain c r where c: "serve_steps qs b c" "bz_stage c = bz_stage b"
    "asks_readiness (qs i) \<Longrightarrow> w_pc (bz_world c) i = Answered r" by metis
  obtain ops rn where f: "finish_request r (qs i) (w_now (bz_world c) - t) (w_now (bz_world c)) (bz_rn c) = (ops, rn)"
    by fastforce
  let ?d = "c\<lparr>bz_rn := rn, bz_stage := (bz_stage c)(i := Finished ops)\<rparr>"
  have "serve_step qs c ?d" by (rule serve_step.answer) (use c assms(2) f in auto)
  from that [OF serve_steps_trans [OF c(1) serve_steps_one [OF this]]] show thesis by (simp add: c(2))
qed

text \<open>
  C18: No request is stranded: whatever has happened, every request can be finished, those
  that wait for the round of another request, and those yet to come, included.
\<close>

theorem no_request_stranded:
  assumes "start_service gv commit prom lb cfg = Some rn0" and "serve_steps qs (opened rn0 t0) b"
  shows "\<exists>b' ops. serve_steps qs b b' \<and> bz_stage b' i = Finished ops"
proof -
  note ok = started_ok [OF assms]
  show ?thesis
  proof (cases "bz_stage b i")
    case Expected
    note arrive = serve_step.arrive [OF this, of qs]
    have "bz_stage (b\<lparr>bz_stage := (bz_stage b)(i := Under_way (w_now (bz_world b)))\<rparr>) i =
        Under_way (w_now (bz_world b))" by simp
    from can_be_finished [OF serve_step_ok [OF arrive ok] this] show ?thesis
      using serve_steps_trans [OF serve_steps_one [OF arrive]] by (metis fun_upd_same)
  next
    case (Under_way t)
    from can_be_finished [OF ok this] show ?thesis by (metis fun_upd_same)
  next
    case (Finished ops)
    then show ?thesis using serve_steps_refl by blast
  qed
qed

theorem no_request_stranded_witness:
  "\<exists>rn0 b ops. start_service ''go1.26'' ''unknown'' (\<lambda>_. not_found) steady_libraries example_config = Some rn0 \<and>
     serve_steps example_requests (opened rn0 1000) b \<and> bz_stage b 5 = Finished ops"
proof -
  obtain rn0 where rn0: "start_service ''go1.26'' ''unknown'' (\<lambda>_. not_found) steady_libraries example_config = Some rn0"
    by (rule example_opened)
  from no_request_stranded [OF rn0 serve_steps_refl] rn0 show ?thesis by blast
qed

section \<open>The load on the dependencies\<close>

text \<open>
  C17: However many requests come and however they overlap, the dependencies are probed at
  most once plus once per elapsed cache TTL.
\<close>

theorem overlapping_load_bound:
  assumes "start_service gv commit prom lb cfg = Some rn0" and "serve_steps qs (opened rn0 t0) b"
    and "0 < cfg_health_cache_ttl cfg"
  shows "check_rounds (rn_aggregator (bz_rn b)) \<le> 1 + (w_now (bz_world b) - t0) div cfg_health_cache_ttl cfg"
proof -
  note ok = started_ok [OF assms(1,2)]
  have "ao_cache_ttl (ag_opts (rn_aggregator rn0)) = cfg_health_cache_ttl cfg"
    by (simp add: started(3) [OF assms(1)] new_aggregator_def readiness_options_def)
  with promise_load [OF keeps_promise [OF busy_okD(1) [OF ok]]] assms(3) show ?thesis
    by (simp add: promise_of_def busy_okD(2) [OF ok])
qed

section \<open>One request at a time\<close>

theorem overlapping_load_bound_witness:
  "\<exists>rn0 b. serve_steps example_requests (opened rn0 1000) b \<and> rn_output (bz_rn b) \<noteq> [] \<and>
     check_rounds (rn_aggregator (bz_rn b)) \<le> 1 + (w_now (bz_world b) - 1000) div 1000000000"
proof -
  obtain rn0 b where ex:
    "start_service ''go1.26'' ''unknown'' (\<lambda>_. not_found) steady_libraries example_config = Some rn0"
    "rn_logger rn0 = new_logger (logger_options example_config)"
    "serve_steps example_requests (opened rn0 1000) b"
    "bz_rn b = snd (serve_request rn0 (example_requests 0))"
    by (rule example_execution)
  have "cfg_health_cache_ttl example_config = 1000000000"
    by (simp add: example_config_def default_config_def)
  with overlapping_load_bound [OF ex(1,3)]
  have "check_rounds (rn_aggregator (bz_rn b)) \<le> 1 + (w_now (bz_world b) - 1000) div 1000000000" by simp
  moreover have "rn_output (bz_rn b) \<noteq> []" unfolding ex(4) by (rule example_logs [OF ex(2)])
  ultimately show ?thesis using ex(3) by blast
qed



end
