(* ===== verification/Service_Endpoints.thy ===== *)
theory Service_Endpoints
  imports Service_Concurrent_Properties
begin

text \<open>
  The two health endpoints while requests overlap: liveness depends on nothing, and a service
  whose clients cannot all be built is never ready.
\<close>

section \<open>Liveness\<close>

text \<open>What is written to the client of a liveness request.\<close>

definition alive_ops :: "config \<Rightarrow> write_op list" where
  "alive_ops cfg = response_ops (liveness_handler (cfg_service_name cfg) (cfg_version cfg))"

lemma finished_alive:
  assumes "start_service gv commit prom lb cfg = Some rn0" "serve_steps qs (opened rn0 t0) b"
    and "rq_path (in_request (qs i)) = live_path" "bz_stage b i = Finished ops"
  shows "ops = alive_ops cfg"
  using assms(2,4)
proof (induction arbitrary: ops rule: serve_steps_induct)
  case (step c d)
  have cfg: "rn_config (bz_rn c) = cfg"
    using busy_okD(3) [OF started_ok [OF assms(1) step.hyps(1)]] started(1) [OF assms(1)] by simp
  from step.hyps(2) show ?case
  proof (cases rule: serve_step.cases)
    case (answer j t r ops' rn)
    have "ops' = alive_ops cfg" if "j = i"
      using answer(4) finish_live [OF assms(3), of r "w_now (bz_world c) - t" "w_now (bz_world c)" "bz_rn c"]
      by (simp add: that alive_ops_def cfg)
    with answer(1) step.IH step.prems show ?thesis by (auto split: if_splits)
  qed (use step.IH step.prems in \<open>auto simp: serve_simps split: if_splits\<close>)
qed (simp add: opened_def)

text \<open>
  C10: Liveness depends on nothing: whatever rounds and other requests are under way, with
  whatever is cached, failing or shutting down, a request for liveness can be answered at
  once, by one step that leaves the aggregator, its callers and the dependency metrics as
  they are; and whenever it is answered, it gets the same 200 and the same body.
\<close>

theorem overlapping_liveness:
  assumes "start_service gv commit prom lb cfg = Some rn0" and "serve_steps qs (opened rn0 t0) b"
    and "bz_stage b i = Under_way t" and "rq_path (in_request (qs i)) = ''/v1/health/live''"
  shows "(\<exists>b' ops. serve_step qs b b' \<and> bz_stage b' i = Finished ops \<and> bz_world b' = bz_world b \<and>
       rn_aggregator (bz_rn b') = rn_aggregator (bz_rn b) \<and> rn_deps (bz_rn b') = rn_deps (bz_rn b)) \<and>
    (\<forall>b' ops. serve_steps qs b b' \<and> bz_stage b' i = Finished ops \<longrightarrow>
       ops = [SetHeader ''Content-Type'' ''application/json'', WriteHeader 200,
         Write (render marshal_escaping (JObj [(''status'', JStr ''alive''),
           (''service'', JStr (cfg_service_name cfg)), (''version'', JStr (cfg_version cfg))]))])"
proof
  have live: "rq_path (in_request (qs i)) = live_path" using assms(4) by (simp add: live_path_def)
  then have no: "\<not> asks_readiness (qs i)" by (simp add: asks_readiness_def serve_simps)
  obtain ops rn where f: "finish_request undefined (qs i) (w_now (bz_world b) - t) (w_now (bz_world b)) (bz_rn b) = (ops, rn)"
    by fastforce
  with finish_request_simps(4,5) have "rn_aggregator rn = rn_aggregator (bz_rn b)" "rn_deps rn = rn_deps (bz_rn b)"
    by (metis snd_conv)+
  moreover have "serve_step qs b (b\<lparr>bz_rn := rn, bz_stage := (bz_stage b)(i := Finished ops)\<rparr>)"
    by (rule serve_step.answer [where r = undefined and t = t]) (use assms(3) no f in simp_all)
  ultimately show "\<exists>b' ops. serve_step qs b b' \<and> bz_stage b' i = Finished ops \<and> bz_world b' = bz_world b \<and>
      rn_aggregator (bz_rn b') = rn_aggregator (bz_rn b) \<and> rn_deps (bz_rn b') = rn_deps (bz_rn b)"
    by (intro exI [of _ "b\<lparr>bz_rn := rn, bz_stage := (bz_stage b)(i := Finished ops)\<rparr>"] exI [of _ ops]) simp
  have "alive_ops cfg = [SetHeader ''Content-Type'' ''application/json'', WriteHeader 200,
      Write (render marshal_escaping (JObj [(''status'', JStr ''alive''),
        (''service'', JStr (cfg_service_name cfg)), (''version'', JStr (cfg_version cfg))]))]"
    by (simp add: alive_ops_def response_ops_def liveness_handler_def liveness_json_def status_alive_def
        del: render.simps)
  with finished_alive [OF assms(1) serve_steps_trans [OF assms(2)] live]
  show "\<forall>b' ops. serve_steps qs b b' \<and> bz_stage b' i = Finished ops \<longrightarrow>
      ops = [SetHeader ''Content-Type'' ''application/json'', WriteHeader 200,
        Write (render marshal_escaping (JObj [(''status'', JStr ''alive''),
          (''service'', JStr (cfg_service_name cfg)), (''version'', JStr (cfg_version cfg))]))]"
    by (simp del: render.simps) blast
qed

theorem overlapping_liveness_witness:
  "\<exists>rn0 b ops. serve_steps (\<lambda>_. example_request live_path) (opened rn0 1000) b \<and>
     bz_stage b 3 = Finished ops \<and> client_status ops = 200"
proof -
  let ?qs = "\<lambda>_ :: nat. example_request live_path"
  obtain rn0 where rn0: "start_service ''go1.26'' ''unknown'' (\<lambda>_. not_found) steady_libraries example_config = Some rn0"
    by (rule example_opened)
  have arrive: "serve_steps ?qs (opened rn0 1000) ((opened rn0 1000)\<lparr>bz_stage :=
      (bz_stage (opened rn0 1000))(3 := Under_way (w_now (bz_world (opened rn0 1000))))\<rparr>)" (is "serve_steps _ _ ?b")
    by (rule serve_steps_one, rule serve_step.arrive) (simp add: opened_def)
  have "bz_stage ?b 3 = Under_way 1000" "rq_path (in_request (?qs 3)) = ''/v1/health/live''"
    by (simp_all add: opened_def initial_def example_request_def live_path_def)
  note answered = overlapping_liveness [OF rn0 arrive this]
  then obtain b' ops where last: "serve_step ?qs ?b b'" "bz_stage b' 3 = Finished ops" by blast
  from answered [THEN conjunct2, rule_format, OF conjI [OF serve_steps_one [OF last(1)] last(2)]]
  have "client_status ops = 200" by simp
  with last serve_steps_trans [OF arrive serve_steps_one] show ?thesis by blast
qed

section \<open>A client that cannot be built\<close>

interpretation refusing: result_promise "service_options lb cfg"
  "\<lambda>r. always_fails lb cfg \<longrightarrow> res_status r \<noteq> status_ready" for lb cfg
  by unfold_locales (simp_all add: round_result_def round_never_ready refusal_never_ready)



end
