(* ===== verification/Service_Metrics.thy ===== *)
theory Service_Metrics
  imports Service_Concurrent_Properties
begin

text \<open>
  What the metrics of the running service show while requests overlap: the gauges follow the
  kept answer of the aggregator, and the HTTP metrics count exactly the finished requests.
\<close>

section \<open>The gauges of the dependencies\<close>

text \<open>
  The gauges are set at the end of a round, and its result is kept a moment later; in between
  the caller that runs the round is the one that publishes.
\<close>

definition gauges_follow :: "aggregator_options \<Rightarrow> world \<Rightarrow> dependency_metrics \<Rightarrow> bool" where
  "gauges_follow opts w m \<longleftrightarrow>
     ag_opts (w_ag w) = opts \<and> flight_ok w \<and> dom (dm_up m) \<subseteq> set dependency_names \<and>
     (\<forall>i r. w_pc w i = Publishing r \<longrightarrow> dm_up m = gauges (res_dependencies r)) \<and>
     ((\<forall>i r. w_pc w i \<noteq> Publishing r) \<longrightarrow>
        dm_up m = (case ag_cached (w_ag w) of None \<Rightarrow> Map.empty | Some r \<Rightarrow> gauges (res_dependencies r)))"

lemma publishes_alone:
  assumes "flight_ok w" "in_flight (w_pc w i)" "w_pc w j = Publishing r"
  shows "j = i"
  using assms unfolding flight_ok_def by (metis in_flight.simps(3) option.inject)

text \<open>
  Seen from the gauges, a step ends a round, keeps its result, or changes nothing.
\<close>

lemma step_gauges_cases:
  assumes "step cx w w'"
  obtains (finish) i t where "w_pc w i = Probing t"
      "w' = set_pc (w\<lparr>w_effects := w_effects w @ map (Pair (w_now w)) (round_effects (cx i) t w)\<rparr>) i
        (Publishing (round_result (cx i) t w))"
    | (publish) i r where "w_pc w i = Publishing r"
      "w' = set_pc (w\<lparr>w_ag := (w_ag w)\<lparr>ag_cached := Some r\<rparr>\<rparr>) i (Landed r)"
    | (same) "w_effects w' = w_effects w" "ag_cached (w_ag w') = ag_cached (w_ag w)"
      "\<forall>j r. w_pc w' j = Publishing r \<longleftrightarrow> w_pc w j = Publishing r"
  using assms by (cases rule: step.cases) (auto simp: set_pc_simps begin_shutdown_def)

lemma gauges_follow_step:
  assumes follow: "gauges_follow (service_options lb cfg) w m" and step: "step cx w w'"
    and "flight_ok w'"
  shows "gauges_follow (service_options lb cfg) w' (fold observe_check (map snd (new_effects w w')) m)"
proof -
  let ?opts = "service_options lb cfg"
  have opts: "ag_opts (w_ag w) = ?opts" "ag_opts (w_ag w') = ?opts"
    using follow step_opts [OF step] by (simp_all add: gauges_follow_def)
  have flight: "flight_ok w" using follow by (simp add: gauges_follow_def)
  from step show ?thesis
  proof (cases rule: step_gauges_cases)
    case (finish i t)
    let ?es = "round_effects (cx i) t w" and ?r = "round_result (cx i) t w"
    have up: "dm_up (fold observe_check ?es m) = gauges (res_dependencies ?r)"
      using gauges_round [OF opts(1), of m "cx i" t] follow
      by (simp add: gauges_follow_def round_effects_def round_result_def del: evaluate_now_simps)
    have names: "map st_name (res_dependencies ?r) = dependency_names"
      by (simp add: round_result_def evaluate_now_simps opts(1) comp_def run_simps service_checkers)
    have "new_effects w w' = map (Pair (w_now w)) ?es"
      by (rule new_effects_append) (simp add: finish(2) set_pc_simps)
    then have es: "map snd (new_effects w w') = ?es" by (simp add: comp_def)
    have "w_pc w j \<noteq> Publishing r" for j r
      using publishes_alone [OF flight, of i j r] finish(1) by auto
    then have pub: "w_pc w' j = Publishing r \<longleftrightarrow> j = i \<and> r = ?r" for j r
      unfolding finish(2) set_pc_simps by auto
    show ?thesis
      unfolding es gauges_follow_def up dom_gauges names pub using assms(3) opts(2) by simp
  next
    case (publish i r)
    have "w_pc w' j \<noteq> Publishing u" for j u
      using publishes_alone [OF flight, of i j u] publish(1) by (auto simp: publish(2) set_pc_simps)
    moreover have "dm_up m = gauges (res_dependencies r)" "ag_cached (w_ag w') = Some r"
      "new_effects w w' = []"
      using follow publish by (auto simp: gauges_follow_def set_pc_simps new_effects_def)
    ultimately show ?thesis using follow assms(3) opts(2) by (simp add: gauges_follow_def)
  next
    case same
    with follow assms(3) opts(2) show ?thesis by (simp add: gauges_follow_def new_effects_def)
  qed
qed

lemma serve_steps_gauges:
  assumes "start_service gv commit prom lb cfg = Some rn0" "serve_steps qs (opened rn0 t0) b"
  shows "gauges_follow (service_options lb cfg) (bz_world b) (rn_deps (bz_rn b))"
  using assms(2)
proof (induction rule: serve_steps_induct)
  case refl
  show ?case using flight_ok_initial
    by (simp add: gauges_follow_def opened_def started(3,5) [OF assms(1)] initial_def
        new_aggregator_def service_options_def)
next
  case (step c d)
  have ok: "flight_ok (bz_world d)"
    by (rule reachable_ok(1), rule busy_okD(1), rule serve_step_ok [OF step.hyps(2)],
        rule started_ok [OF assms(1) step.hyps(1)])
  from step.hyps(2) show ?case
  proof (cases rule: serve_step.cases)
    case (work w')
    from gauges_follow_step [OF step.IH this(2)] ok show ?thesis by (simp add: work(1) serve_simps)
  next
    case (answer i t r ops rn)
    then have "rn_deps rn = rn_deps (bz_rn c)" by (metis finish_request_simps(5) snd_conv)
    with step.IH answer(1) show ?thesis by simp
  qed (use step.IH in simp)
qed



section \<open>The HTTP metrics\<close>

text \<open>The route label of a request: the route it is for, and one fixed label for all others.\<close>

definition request_route :: "incoming \<Rightarrow> go_string" where
  "request_route q =
     (let r = in_request q; path = (if rq_method r = ''CONNECT'' then rq_path r else clean_path (rq_path r))
      in if path \<in> {metrics_path, live_path, ready_path} then path else route_unmatched)"

lemma service_label:
  "route_label (snd (mux_handler (service_mux rn h) (in_request q))) = request_route q"
  by (auto simp: request_route_def mux_handler_def service_mux_def route_label_def Let_def serve_simps)

lemma mux_final:
  assumes "\<forall>(p, h) \<in> set mux. \<forall>ctx r. final_only (hr_ops (h ctx r))"
  shows "final_only (hr_ops (fst (mux_handler mux r) ctx r))"
  using assms
  by (auto simp: mux_handler_def Let_def not_found_def redirect_def final_only_def
      split: option.splits dest!: map_of_SomeD)

lemma response_final: "final_only (hr_ops (run_of_response rsp)) \<longleftrightarrow> \<not> (100 \<le> rsp_code rsp \<and> rsp_code rsp < 200 \<and> rsp_code rsp \<noteq> 101)"
  by (auto simp: final_only_def run_of_response_def)

lemma service_final:
  assumes "\<forall>ctx r. final_only (hr_ops (rn_prom rn ctx r))"
  shows "\<forall>(p, h) \<in> set (service_mux rn (\<lambda>_ _. run_of_response (readiness_response res))).
    \<forall>ctx r. final_only (hr_ops (h ctx r))"
  using assms by (simp add: service_mux_def live_route_def response_final liveness_handler_def readiness_response_def)

lemma finish_request_counted:
  assumes "\<forall>ctx r. final_only (hr_ops (rn_prom rn ctx r))"
  shows "rn_http (snd (finish_request res q d t rn)) =
    observe_http (rn_http rn) (request_route q) (rq_method (in_request q))
      (client_status (fst (finish_request res q d t rn))) d"
  using mux_final [OF service_final [OF assms]]
  by (simp add: finish_request_def Let_def observe_recovered service_label recovered_code)

text \<open>The requests that are finished, with this route and method and a response as said.\<close>

definition served_as :: "(nat \<Rightarrow> incoming) \<Rightarrow> busy \<Rightarrow> go_string \<Rightarrow> go_string \<Rightarrow> (write_op list \<Rightarrow> bool) \<Rightarrow> nat set" where
  "served_as qs b route m P =
     {i. \<exists>ops. bz_stage b i = Finished ops \<and> request_route (qs i) = route \<and>
        rq_method (in_request (qs i)) = m \<and> P ops}"

definition counts_ok :: "(nat \<Rightarrow> incoming) \<Rightarrow> busy \<Rightarrow> bool" where
  "counts_ok qs b \<longleftrightarrow>
     finite {i. \<exists>ops. bz_stage b i = Finished ops} \<and>
     (\<forall>route m c. hm_requests (rn_http (bz_rn b)) (route, m, c) =
        int (card (served_as qs b route m (\<lambda>ops. itoa (client_status ops) = c)))) \<and>
     (\<forall>route m. length (hm_duration (rn_http (bz_rn b)) (route, m)) = card (served_as qs b route m (\<lambda>_. True)))"

lemma served_as_finite: "counts_ok qs b \<Longrightarrow> finite (served_as qs b route m P)"
  by (rule finite_subset [of _ "{i. \<exists>ops. bz_stage b i = Finished ops}"])
    (auto simp: served_as_def counts_ok_def)

lemma served_as_answer:
  assumes "bz_stage b i = Under_way t"
  shows "served_as qs (b\<lparr>bz_rn := rn, bz_stage := (bz_stage b)(i := Finished ops)\<rparr>) route m P =
    (if request_route (qs i) = route \<and> rq_method (in_request (qs i)) = m \<and> P ops
     then insert i (served_as qs b route m P) else served_as qs b route m P)"
    "i \<notin> served_as qs b route m P"
  using assms by (auto simp: served_as_def)

lemma counts_ok_same:
  assumes "counts_ok qs b" "rn_http (bz_rn b') = rn_http (bz_rn b)"
    and "\<And>i ops. bz_stage b' i = Finished ops \<longleftrightarrow> bz_stage b i = Finished ops"
  shows "counts_ok qs b'"
  using assms by (simp add: counts_ok_def served_as_def)

lemma counts_ok_answer:
  assumes "counts_ok qs b" "bz_stage b i = Under_way t"
    and "rn_http rn = observe_http (rn_http (bz_rn b)) (request_route (qs i)) (rq_method (in_request (qs i)))
      (client_status ops) d"
  shows "counts_ok qs (b\<lparr>bz_rn := rn, bz_stage := (bz_stage b)(i := Finished ops)\<rparr>)"
proof -
  have "{j. \<exists>ops'. ((bz_stage b)(i := Finished ops)) j = Finished ops'} =
      insert i {j. \<exists>ops'. bz_stage b j = Finished ops'}" by auto
  moreover have "finite {j. \<exists>ops'. bz_stage b j = Finished ops'}"
    using assms(1) by (simp add: counts_ok_def)
  moreover have "card (insert i (served_as qs b route m P)) = Suc (card (served_as qs b route m P))" for route m P
    by (rule card_insert_disjoint [OF served_as_finite [OF assms(1)] served_as_answer(2) [OF assms(2)]])
  ultimately show ?thesis
    using assms(1) by (auto simp: counts_ok_def served_as_answer(1) [OF assms(2)] assms(3) observe_http_def)
qed

lemma serve_steps_counts:
  assumes "start_service gv commit prom lb cfg = Some rn0" "serve_steps qs (opened rn0 t0) b"
    and "\<forall>reg ctx r. final_only (hr_ops (prom reg ctx r))"
  shows "counts_ok qs b \<and> rn_prom (bz_rn b) = rn_prom rn0"
  using assms(2)
proof (induction rule: serve_steps_induct)
  case refl
  show ?case by (simp add: counts_ok_def served_as_def opened_def started(4) [OF assms(1)])
next
  case (step c d)
  then have ih: "counts_ok qs c" "rn_prom (bz_rn c) = rn_prom rn0" by simp_all
  from step.hyps(2) show ?case
  proof (cases rule: serve_step.cases)
    case (answer i t r ops rn)
    have rn: "rn = snd (finish_request r (qs i) (w_now (bz_world c) - t) (w_now (bz_world c)) (bz_rn c))"
      and ops: "ops = fst (finish_request r (qs i) (w_now (bz_world c) - t) (w_now (bz_world c)) (bz_rn c))"
      using answer(4) by simp_all
    have "\<forall>ctx r. final_only (hr_ops (rn_prom (bz_rn c) ctx r))"
      using started_prom [OF assms(1)] assms(3) ih(2) by auto
    then have "rn_http rn = observe_http (rn_http (bz_rn c)) (request_route (qs i))
        (rq_method (in_request (qs i))) (client_status ops) (w_now (bz_world c) - t)"
      unfolding rn ops by (rule finish_request_counted)
    from counts_ok_answer [OF ih(1) answer(2) this] show ?thesis by (simp add: answer(1) ih(2) rn serve_simps)
  next
    case (arrive i)
    with ih counts_ok_same [OF ih(1), of d] show ?thesis by auto
  next
    case (work w')
    with ih counts_ok_same [OF ih(1), of d] show ?thesis by (simp add: serve_simps)
  qed
qed

text \<open>
  C13: The HTTP metrics count exactly the finished requests, however they overlap: for every
  route label, method and status the counter is the number of finished requests that had them,
  the status being the one their client got, and the histogram has one duration for each.
  Only the three routes and the fixed label for anything else ever have an observation,
  whatever paths are asked for.
\<close>

theorem overlapping_requests_counted:
  assumes "start_service gv commit prom lb cfg = Some rn0" and "serve_steps qs (opened rn0 t0) b"
    and "\<forall>reg ctx r. final_only (hr_ops (prom reg ctx r))"
  shows "finite {i. \<exists>ops. bz_stage b i = Finished ops} \<and>
    hm_requests (rn_http (bz_rn b)) (route, m, c) =
      int (card {i. \<exists>ops. bz_stage b i = Finished ops \<and> request_route (qs i) = route \<and>
        rq_method (in_request (qs i)) = m \<and> itoa (client_status ops) = c}) \<and>
    length (hm_duration (rn_http (bz_rn b)) (route, m)) =
      card {i. \<exists>ops. bz_stage b i = Finished ops \<and> request_route (qs i) = route \<and>
        rq_method (in_request (qs i)) = m} \<and>
    {route. \<exists>m. hm_duration (rn_http (bz_rn b)) (route, m) \<noteq> []} \<subseteq>
      {''/metrics'', ''/v1/health/live'', ''/v1/health/ready'', ''unmatched''}"
proof -
  have ok: "counts_ok qs b" using serve_steps_counts [OF assms] by simp
  have "route' \<in> {''/metrics'', ''/v1/health/live'', ''/v1/health/ready'', ''unmatched''}"
    if "hm_duration (rn_http (bz_rn b)) (route', m') \<noteq> []" for route' m'
  proof -
    have "card (served_as qs b route' m' (\<lambda>_. True)) \<noteq> 0"
      using ok that by (metis counts_ok_def length_0_conv)
    then have "served_as qs b route' m' (\<lambda>_. True) \<noteq> {}" by (metis card.empty)
    then obtain i where "request_route (qs i) = route'" by (auto simp: served_as_def)
    then show ?thesis
      by (auto simp: request_route_def metrics_path_def live_path_def ready_path_def
          route_unmatched_def Let_def split: if_splits)
  qed
  with ok show ?thesis unfolding counts_ok_def served_as_def by auto
qed

theorem overlapping_requests_counted_witness:
  "\<exists>rn0 b. serve_steps example_requests (opened rn0 1000) b \<and>
     0 < length (hm_duration (rn_http (bz_rn b)) (''/v1/health/ready'', ''GET''))"
proof -
  obtain rn0 b where ex:
    "start_service ''go1.26'' ''unknown'' (\<lambda>_. not_found) steady_libraries example_config = Some rn0"
    "serve_steps example_requests (opened rn0 1000) b"
    "bz_stage b 0 = Finished (fst (serve_request rn0 (example_requests 0)))"
    by (rule example_execution)
  have final: "\<forall>(reg :: registry) ctx r. final_only (hr_ops (not_found ctx r))"
    by (simp add: not_found_def final_only_def)
  have "request_route (example_requests 0) = ''/v1/health/ready''"
    "rq_method (in_request (example_requests 0)) = ''GET''"
    by (simp_all add: example_requests_def) code_simp+
  then have "0 \<in> {i. \<exists>ops. bz_stage b i = Finished ops \<and> request_route (example_requests i) = ''/v1/health/ready'' \<and>
      rq_method (in_request (example_requests i)) = ''GET''}" (is "_ \<in> ?S") using ex(3) by simp
  moreover note counted = overlapping_requests_counted [OF ex(1,2) final,
    of "''/v1/health/ready''" "''GET''" "''200''"]
  then have "finite ?S" by (rule finite_subset [rotated, OF conjunct1]) auto
  ultimately have "0 < card ?S" by (auto simp: card_gt_0_iff)
  with counted ex(2) show ?thesis by (intro exI [of _ rn0] exI [of _ b]) simp
qed

end
