(* ===== verification/Service_Freshness.thy ===== *)
theory Service_Freshness
  imports Service_Concurrent_Properties
begin

text \<open>
  How old the answer may be that a request for readiness is given while others overlap with it.
\<close>

section \<open>The age of what the aggregator holds\<close>

lemma fresh_younger:
  "fresh a t = Some r \<Longrightarrow> t - ao_cache_ttl (ag_opts a) < res_evaluated_at r"
  by (auto simp: fresh_def split: option.splits if_splits)

lemma stamped_now [simp]:
  "res_evaluated_at (shutdown_result a t) = t" "res_evaluated_at (round_result ctx u w) = w_now w"
  by (simp_all add: shutdown_result_def round_result_def)

text \<open>Nothing that is held was evaluated in the future.\<close>

definition no_future :: "world \<Rightarrow> bool" where
  "no_future w \<longleftrightarrow> (\<forall>i. list_all (\<lambda>r. res_evaluated_at r \<le> w_now w) (held (w_pc w i))) \<and>
     (\<forall>r. ag_cached (w_ag w) = Some r \<longrightarrow> res_evaluated_at r \<le> w_now w)"

lemma no_future_set_pc:
  assumes "no_future w" "w_now w' = w_now w" "ag_cached (w_ag w') = ag_cached (w_ag w)" "w_pc w' = w_pc w"
    and "list_all (\<lambda>r. res_evaluated_at r \<le> w_now w) (held p)"
  shows "no_future (set_pc w' i p)"
  using assms by (simp add: no_future_def set_pc_simps)

lemma no_future_step:
  assumes "step cx w w'" "no_future w"
  shows "no_future w'"
proof -
  have own: "list_all (\<lambda>r. res_evaluated_at r \<le> w_now w) (held (w_pc w i))" for i
    using assms(2) by (simp add: no_future_def)
  have kept: "res_evaluated_at r \<le> w_now w" if "fresh (w_ag w) (w_now w) = Some r" for r
    using fresh_cached [OF that] assms(2) by (simp add: no_future_def)
  from assms(1) show ?thesis
  proof (cases rule: step.cases)
    case (tick d)
    with assms(2) show ?thesis by (fastforce simp: no_future_def list_all_iff)
  next
    case begin_down
    with assms(2) show ?thesis by (simp add: no_future_def begin_shutdown_def)
  next
    case (publish i r)
    with own [of i] assms(2) show ?thesis by (auto simp: no_future_def set_pc_simps)
  next
    case (land i r)
    with own [of i] assms(2) show ?thesis by (auto simp: no_future_def)
  next
    case (recheck i r)
    with own [of i] assms(2) show ?thesis by (auto intro: no_future_set_pc)
  qed (use assms(2) in \<open>auto intro!: no_future_set_pc kept\<close>)
qed

text \<open>
  What is handed on to callers from some instant on: every result held is younger than
  \<open>lo\<close>, but for the callers in \<open>old\<close>, who had theirs before.
\<close>

fun settled :: "pc \<Rightarrow> bool" where
  "settled (Returned _) = True"
| "settled (Answered _) = True"
| "settled _ = False"

definition young :: "instant \<Rightarrow> nat set \<Rightarrow> world \<Rightarrow> bool" where
  "young lo old w \<longleftrightarrow>
     (\<forall>i. i \<in> old \<and> settled (w_pc w i) \<or> list_all (\<lambda>r. lo < res_evaluated_at r) (held (w_pc w i)))"

lemma young_update:
  "young lo old (w\<lparr>w_now := n\<rparr>) = young lo old w" "young lo old (w\<lparr>w_ag := a\<rparr>) = young lo old w"
  by (simp_all add: young_def)

lemma young_set_pc:
  assumes "young lo old w" "w_pc w' = w_pc w" "list_all (\<lambda>r. lo < res_evaluated_at r) (held p)"
  shows "young lo old (set_pc w' i p)"
  using assms by (simp add: young_def set_pc_simps)

lemma young_step:
  assumes "step cx w w'" "young lo old w"
    and "lo \<le> w_now w - ao_cache_ttl (ag_opts (w_ag w))" "0 < ao_cache_ttl (ag_opts (w_ag w))"
  shows "young lo old w'"
proof -
  have kept: "lo < res_evaluated_at r" if "fresh (w_ag w) (w_now w) = Some r" for r
    using fresh_younger [OF that] assms(3) by simp
  have now: "lo < w_now w" using assms(3,4) by simp
  have own: "lo < res_evaluated_at r" if "r \<in> set (held (w_pc w i))" "\<not> settled (w_pc w i)" for i r
    using assms(2) that by (auto simp: young_def list_all_iff)
  from assms(1) show ?thesis
  proof (cases rule: step.cases)
    case (publish i r)
    with own [of r i] assms(2) show ?thesis by (auto intro: young_set_pc)
  next
    case (land i r)
    with own [of r i] assms(2) show ?thesis by (auto simp: young_def)
  next
    case (recheck i r)
    with assms(2) show ?thesis by (auto simp: young_def set_pc_simps)
  qed (use assms(2) now in \<open>auto intro!: young_set_pc kept simp: young_update\<close>)
qed

lemma steps_ages:
  assumes "steps cx w w'" "young lo old w" "no_future w" "lo \<le> w_now w - ao_cache_ttl (ag_opts (w_ag w))"
    "0 < ao_cache_ttl (ag_opts (w_ag w))"
  shows "young lo old w' \<and> no_future w' \<and> w_now w \<le> w_now w' \<and> ag_opts (w_ag w') = ag_opts (w_ag w)"
  using assms
proof (induction rule: steps.induct)
  case (more w w' w'')
  then have ih: "young lo old w'" "no_future w'" "w_now w \<le> w_now w'" "ag_opts (w_ag w') = ag_opts (w_ag w)"
    by simp_all
  have "w_now w' \<le> w_now w''" using more.hyps(2) by cases (auto simp: set_pc_simps)
  with young_step [OF more.hyps(2) ih(1)] no_future_step [OF more.hyps(2) ih(2)] ih(3,4) more.prems
    step_opts [OF more.hyps(2)] show ?case by simp
qed simp

section \<open>The age of an answer\<close>

text \<open>
  C29: Freshness while requests overlap: when a request for readiness comes at a moment at which
  no flight is between the end of its round and its landing, the answer written to its client
  names an instant of evaluation that lies less than a TTL before the request came, and not in
  the future, whether it ran a round, found a kept answer, waited for the round of
  another request or was refused.
\<close>

theorem overlapping_answers_fresh:
  assumes "start_service gv commit prom lb cfg = Some rn0" and "serve_steps qs (opened rn0 t0) b"
    and "0 < cfg_health_cache_ttl cfg"
    and "\<forall>j r. w_pc (bz_world b) j \<noteq> Publishing r \<and> w_pc (bz_world b) j \<noteq> Landed r"
    and "bz_stage b i = Expected" and "serve_steps qs b b'" and "bz_stage b' i = Finished ops"
    and "rq_path (in_request (qs i)) = ''/v1/health/ready''"
  shows "\<exists>j t. last ops = Write (render encoder_escaping j @ [CHR 0x0A]) \<and>
    member j ''evaluated_at'' = Some (JStr (format_nanos t)) \<and>
    w_now (bz_world b) - cfg_health_cache_ttl cfg < t \<and> t \<le> w_now (bz_world b')"
proof -
  let ?w = "bz_world b" and ?w' = "bz_world b'" and ?ttl = "cfg_health_cache_ttl cfg"
  let ?old = "{j. settled (w_pc ?w j)}"
  note ok = started_ok [OF assms(1,2)]
  have ready: "asks_readiness (qs i)" using assms(8) by (simp add: asks_readiness_def ready_path_def)
  have ttl: "ao_cache_ttl (ag_opts (rn_aggregator rn0)) = ?ttl"
    by (simp add: started(3) [OF assms(1)] new_aggregator_def readiness_options_def)
  have first: "no_future (initial opts t0)" for opts
    by (simp add: no_future_def initial_def new_aggregator_def)
  have "young (t0 - ?ttl) {} (initial (ag_opts (rn_aggregator rn0)) t0)"
    by (simp add: young_def initial_def)
  from steps_ages [OF busy_okD(1) [OF ok] this first] ttl assms(3)
  have now: "no_future ?w" and opts: "ao_cache_ttl (ag_opts (w_ag ?w)) = ?ttl"
    by (simp_all add: initial_def new_aggregator_def)
  have "j \<in> ?old \<and> settled (w_pc ?w j) \<or> held (w_pc ?w j) = []" for j
    using assms(4) by (cases "w_pc ?w j") auto
  then have "young (w_now ?w - ?ttl) ?old ?w" by (fastforce simp: young_def)
  from steps_ages [OF serve_steps_world [OF assms(6)] this now] opts assms(3)
  have later: "young (w_now ?w - ?ttl) ?old ?w'" "no_future ?w'" by simp_all
  from busy_okD(7) [OF serve_steps_ok [OF assms(6) ok] assms(7) ready]
  obtain r where r: "w_pc ?w' i = Answered r" "ops = response_ops (readiness_response r)" by blast
  have "w_pc ?w i = Idle" using busy_okD(5) [OF ok, of i] assms(5) by blast
  then have "list_all (\<lambda>r. w_now ?w - ?ttl < res_evaluated_at r) (held (w_pc ?w' i))"
    using later(1) unfolding young_def by (metis mem_Collect_eq settled.simps(3))
  moreover have "list_all (\<lambda>r. res_evaluated_at r \<le> w_now ?w') (held (w_pc ?w' i))"
    using later(2) by (simp add: no_future_def)
  ultimately have "w_now ?w - ?ttl < res_evaluated_at r" "res_evaluated_at r \<le> w_now ?w'"
    using r(1) by simp_all
  then show ?thesis
    by (intro exI [of _ "result_json r"] exI [of _ "res_evaluated_at r"])
      (simp add: r(2) response_ops_def readiness_response_def result_json_def member_object)
qed

theorem overlapping_answers_fresh_witness:
  "\<exists>rn0 b ops j t. serve_steps example_requests (opened rn0 1000) b \<and> bz_stage b 0 = Finished ops \<and>
     last ops = Write (render encoder_escaping j @ [CHR 0x0A]) \<and>
     member j ''evaluated_at'' = Some (JStr (format_nanos t)) \<and> 1000 - 1000000000 < t"
proof -
  obtain rn0 b where ex:
    "start_service ''go1.26'' ''unknown'' (\<lambda>_. not_found) steady_libraries example_config = Some rn0"
    "serve_steps example_requests (opened rn0 1000) b"
    "bz_stage b 0 = Finished (fst (serve_request rn0 (example_requests 0)))"
    by (rule example_execution)
  have ttl: "cfg_health_cache_ttl example_config = 1000000000"
    by (simp add: example_config_def default_config_def)
  have start: "w_now (bz_world (opened rn0 1000)) = 1000" "w_pc (bz_world (opened rn0 1000)) j = Idle"
    "bz_stage (opened rn0 1000) j = Expected" for j
    by (simp_all add: opened_def initial_def)
  have "\<exists>j t. last ops = Write (render encoder_escaping j @ [CHR 0x0A]) \<and>
      member j ''evaluated_at'' = Some (JStr (format_nanos t)) \<and> 1000 - 1000000000 < t"
    if "ops = fst (serve_request rn0 (example_requests 0))" for ops
    using overlapping_answers_fresh [OF ex(1) serve_steps_refl _ _ _ ex(2,3) example_path, unfolded ttl start]
    by (auto simp: that)
  with ex(2,3) show ?thesis by blast
qed

section \<open>Why a landing flight is excepted\<close>

text \<open>
  A caller that comes when the goroutine of a flight has kept its result but has not left the
  flight's function joins that flight, whatever time has passed since: it is answered with a
  result that is as old as the TTL already when it comes. This takes a scheduler that keeps the
  goroutine from running for that long.
\<close>

lemma fresh_simps [simp]:
  "ag_cached a = None \<Longrightarrow> fresh a t = None"
  "ag_cached a = Some r \<Longrightarrow> ao_cache_ttl (ag_opts a) \<le> t - res_evaluated_at r \<Longrightarrow> fresh a t = None"
  by (simp_all add: fresh_def)

lemma landed_world:
  obtains w r where "steps cx (initial opts t0) w" "w_pc w 0 = Landed r" "w_pc w 2 = Idle" "w_flight w = Some 0"
    "ag_cached (w_ag w) = Some r" "res_evaluated_at r = w_now w" "\<not> ag_shutting_down (w_ag w)"
    "ag_opts (w_ag w) = opts"
proof -
  let ?w0 = "initial opts t0" and ?fin = "round_end (cx 0) opts t0"
  let ?w3 = "set_pc (set_pc (set_pc ?w0 0 Checked) 0 Missed\<lparr>w_flight := Some 0\<rparr>) 0 Leading"
  let ?w4 = "set_pc (?w3\<lparr>w_ag := (w_ag ?w3)\<lparr>ag_check_rounds := ag_check_rounds (w_ag ?w3) + 1\<rparr>,
      w_rounds := w_now ?w3 # w_rounds ?w3\<rparr>) 0 (Probing (w_now ?w3))"
  let ?w5 = "?w4\<lparr>w_now := w_now ?w4 + (?fin - t0)\<rparr>"
  let ?r = "round_result (cx 0) t0 ?w5"
  let ?w6 = "set_pc (?w5\<lparr>w_effects := w_effects ?w5 @ map (Pair (w_now ?w5)) (round_effects (cx 0) t0 ?w5)\<rparr>) 0 (Publishing ?r)"
  let ?w7 = "set_pc (?w6\<lparr>w_ag := (w_ag ?w6)\<lparr>ag_cached := Some ?r\<rparr>\<rparr>) 0 (Landed ?r)"
  note start = initial_def new_aggregator_def set_pc_simps
  have s1: "step cx ?w0 (set_pc ?w0 0 Checked)" by (rule step.enter) (simp_all add: start)
  have s2: "step cx (set_pc ?w0 0 Checked) (set_pc (set_pc ?w0 0 Checked) 0 Missed)"
    by (rule step.miss) (simp_all add: start)
  have s3: "step cx (set_pc (set_pc ?w0 0 Checked) 0 Missed) ?w3"
    by (rule step.lead) (simp_all add: start)
  have s4: "step cx ?w3 ?w4" by (rule step.start) (simp_all add: start)
  have s5: "step cx ?w4 ?w5"
    by (rule step.tick) (use round_end_ge [of t0 "cx 0" opts] in \<open>simp add: start\<close>)
  have s6: "step cx ?w5 ?w6" by (rule step.finish) (simp_all add: start)
  have s7: "step cx ?w6 ?w7" by (rule step.publish) (simp add: start)
  note run = steps.refl [THEN steps.more, OF s1, THEN steps.more, OF s2, THEN steps.more, OF s3, THEN steps.more, OF s4,
    THEN steps.more, OF s5, THEN steps.more, OF s6, THEN steps.more, OF s7]
  from that [OF run] show thesis by (simp add: start)
qed

lemma late_joiner_gets_old_answer:
  assumes "0 < ao_cache_ttl opts"
  obtains w w' r where "steps cx (initial opts t0) w" "w_pc w 2 = Idle" "steps cx w w'" "w_pc w' 2 = Answered r"
    "res_evaluated_at r \<le> w_now w - ao_cache_ttl opts"
proof -
  obtain u r where u: "steps cx (initial opts t0) u" "w_pc u 0 = Landed r" "w_pc u 2 = Idle" "w_flight u = Some 0"
    "ag_cached (w_ag u) = Some r" "res_evaluated_at r = w_now u" "\<not> ag_shutting_down (w_ag u)"
    "ag_opts (w_ag u) = opts" by (rule landed_world)
  let ?w = "u\<lparr>w_now := w_now u + ao_cache_ttl opts\<rparr>"
  let ?w3 = "set_pc (set_pc (set_pc ?w 2 Checked) 2 Missed) 2 Waiting"
  let ?w4 = "?w3\<lparr>w_flight := None,
      w_pc := (\<lambda>j. if j = 0 \<or> w_pc ?w3 j = Waiting then Returned r else w_pc ?w3 j)\<rparr>"
  have tick: "step cx u ?w" by (rule step.tick) (use assms in simp)
  have s1: "step cx ?w (set_pc ?w 2 Checked)" by (rule step.enter) (simp_all add: u)
  have s2: "step cx (set_pc ?w 2 Checked) (set_pc (set_pc ?w 2 Checked) 2 Missed)"
    by (rule step.miss) (simp_all add: u set_pc_simps)
  have s3: "step cx (set_pc (set_pc ?w 2 Checked) 2 Missed) ?w3"
    by (rule step.join) (simp_all add: u set_pc_simps)
  have s4: "step cx ?w3 ?w4" by (rule step.land) (simp add: u set_pc_simps)
  have s5: "step cx ?w4 (set_pc ?w4 2 (Answered r))"
    by (rule step.recheck) (simp_all add: u set_pc_simps)
  note run = steps.refl [THEN steps.more, OF s1, THEN steps.more, OF s2, THEN steps.more, OF s3, THEN steps.more, OF s4,
    THEN steps.more, OF s5]
  from that [OF steps.more [OF u(1) tick] _ run] u show thesis by (simp add: set_pc_simps)
qed

end
