(* ===== verification/Service_Draining.thy ===== *)
theory Service_Draining
  imports Service_Concurrent_Properties
begin

text \<open>
  The running service and its shutdown together: requests that overlap, as in
  \<open>Service_Concurrent\<close>, while the goroutine of \<open>Shutdown\<close> takes the steps that \<open>run\<close> gives it,
  in their order. Only the first of these steps closes the gate. The process may exit at
  any moment of its shutdown, when the grace period is over or a second signal comes; what
  is shown of every situation holds up to then.
\<close>

section \<open>States and steps\<close>

text \<open>
  \<open>dp_steps\<close> are the shutdown steps not yet done, once the shutdown has begun; \<open>dp_open\<close>,
  whether a request may still come; \<open>dp_closed\<close>, whether the dependency clients are closed.
\<close>

record departing =
  dp_busy :: busy
  dp_steps :: "go_string list option"
  dp_open :: bool
  dp_closed :: bool

definition serving :: "running \<Rightarrow> instant \<Rightarrow> departing" where
  "serving rn t = \<lparr>dp_busy = opened rn t, dp_steps = None, dp_open = True, dp_closed = False\<rparr>"

text \<open>
  \<open>Server.Shutdown\<close> is the library's, which answers no error only when every connection is
  idle and closed: no request is then under way, and none comes any more. Until then one may
  still come on a connection that was accepted before.
\<close>

definition server_idle :: "busy \<Rightarrow> bool" where
  "server_idle b \<longleftrightarrow> (\<forall>i t. bz_stage b i \<noteq> Under_way t)"

definition may_succeed :: "go_string \<Rightarrow> busy \<Rightarrow> bool" where
  "may_succeed n b \<longleftrightarrow> (n = ''http_server'' \<longrightarrow> server_idle b)"

text \<open>What the step called \<open>n\<close> has done when it has succeeded.\<close>

definition step_taken :: "go_string \<Rightarrow> departing \<Rightarrow> departing" where
  "step_taken n d =
     (let w = bz_world (dp_busy d) in
      d\<lparr>dp_busy := worked (dp_busy d) (w\<lparr>w_ag := step_effect n (w_ag w)\<rparr>),
        dp_open := (dp_open d \<and> n \<noteq> ''http_server''),
        dp_closed := (dp_closed d \<or> n = ''dependency_clients'')\<rparr>)"

text \<open>
  \<open>serve\<close>: the service goes on, without touching the gate. \<open>stop\<close>: \<open>Shutdown\<close> starts.
  \<open>succeed\<close>: the next step returns no error. \<open>server_fails\<close>: \<open>Server.Shutdown\<close> returns one, whereupon no
  further step is taken.
\<close>

inductive depart_step ::
  "(nat \<Rightarrow> incoming) \<Rightarrow> circumstances \<Rightarrow> departing \<Rightarrow> departing \<Rightarrow> bool" for qs ci where
  serve: "serve_step qs (dp_busy d) b \<Longrightarrow>
    ag_shutting_down (w_ag (bz_world b)) = ag_shutting_down (w_ag (bz_world (dp_busy d))) \<Longrightarrow>
    (\<And>i. bz_stage (dp_busy d) i = Expected \<Longrightarrow> bz_stage b i \<noteq> Expected \<Longrightarrow> dp_open d) \<Longrightarrow>
    depart_step qs ci d (d\<lparr>dp_busy := b\<rparr>)"
| stop: "dp_steps d = None \<Longrightarrow>
    depart_step qs ci d (d\<lparr>dp_steps := Some (map step_name (shutdown_steps ci))\<rparr>)"
| succeed: "dp_steps d = Some (n # ns) \<Longrightarrow> may_succeed n (dp_busy d) \<Longrightarrow>
    depart_step qs ci d (step_taken n (d\<lparr>dp_steps := Some ns\<rparr>))"
| server_fails: "dp_steps d = Some (''http_server'' # ns) \<Longrightarrow>
    depart_step qs ci d (d\<lparr>dp_steps := Some []\<rparr>)"

definition depart_steps ::
  "(nat \<Rightarrow> incoming) \<Rightarrow> circumstances \<Rightarrow> departing \<Rightarrow> departing \<Rightarrow> bool" where
  "depart_steps qs ci = (depart_step qs ci)\<^sup>*\<^sup>*"

lemma depart_steps_refl [simp]: "depart_steps qs ci d d"
  by (simp add: depart_steps_def)

lemma depart_steps_one: "depart_step qs ci d d' \<Longrightarrow> depart_steps qs ci d d'"
  by (simp add: depart_steps_def)

lemma depart_steps_trans:
  "depart_steps qs ci d d' \<Longrightarrow> depart_steps qs ci d' d'' \<Longrightarrow> depart_steps qs ci d d''"
  unfolding depart_steps_def by (rule rtranclp_trans)

lemma depart_steps_induct [consumes 1, case_names refl step]:
  assumes "depart_steps qs ci d d'" "P d"
    "\<And>e f. depart_steps qs ci d e \<Longrightarrow> depart_step qs ci e f \<Longrightarrow> P e \<Longrightarrow> P f"
  shows "P d'"
  using assms unfolding depart_steps_def by (induction rule: rtranclp_induct) auto

lemma step_taken_simps [serve_simps]:
  "bz_stage (dp_busy (step_taken n d)) = bz_stage (dp_busy d)"
  "bz_world (dp_busy (step_taken n d)) =
     (bz_world (dp_busy d))\<lparr>w_ag := step_effect n (w_ag (bz_world (dp_busy d)))\<rparr>"
  "dp_steps (step_taken n d) = dp_steps d"
  "dp_open (step_taken n d) \<longleftrightarrow> dp_open d \<and> n \<noteq> ''http_server''"
  "dp_closed (step_taken n d) \<longleftrightarrow> dp_closed d \<or> n = ''dependency_clients''"
  by (simp_all add: step_taken_def Let_def worked_def)

lemma stop_order [simp]:
  "map step_name (shutdown_steps ci) = [''readiness_gate'', ''http_server'', ''dependency_clients'']"
  by (simp add: shutdown_steps_def)

section \<open>The service underneath\<close>

text \<open>Without its shutdown steps, an execution is one of the service.\<close>

lemma step_taken_serves:
  assumes "rn_aggregator (bz_rn (dp_busy d)) = w_ag (bz_world (dp_busy d))"
  shows "serve_steps qs (dp_busy d) (dp_busy (step_taken n (d\<lparr>dp_steps := ns\<rparr>)))"
proof (cases "n = ''readiness_gate''")
  case True
  let ?w = "bz_world (dp_busy d)"
  have "serve_step qs (dp_busy d) (worked (dp_busy d) (?w\<lparr>w_ag := begin_shutdown (w_ag ?w)\<rparr>))"
    by (rule serve_step.work [OF step.begin_down]) simp
  with True show ?thesis by (simp add: step_taken_def step_effect_def serve_steps_one Let_def)
next
  case False
  then have "dp_busy (step_taken n (d\<lparr>dp_steps := ns\<rparr>)) = worked (dp_busy d) (bz_world (dp_busy d))"
    by (simp add: step_taken_def step_effect_def Let_def)
  with worked_same [OF assms] show ?thesis by simp
qed

lemma depart_step_serves:
  assumes "depart_step qs ci d d'" "busy_ok qs rn0 t0 (dp_busy d)"
  shows "serve_steps qs (dp_busy d) (dp_busy d')"
  using assms(1)
  by cases (auto intro: serve_steps_one step_taken_serves busy_okD(2) [OF assms(2)])

lemma depart_steps_serve:
  assumes "depart_steps qs ci d d'" "busy_ok qs rn0 t0 (dp_busy d)"
  shows "serve_steps qs (dp_busy d) (dp_busy d')"
  using assms(1)
proof (induction rule: depart_steps_induct)
  case (step e f)
  from depart_step_serves [OF step.hyps(2) serve_steps_ok [OF step.IH assms(2)]] step.IH
  show ?case by (metis serve_steps_trans)
qed simp

lemma departing_serves:
  assumes "start_service gv commit prom lb cfg = Some rn0" "depart_steps qs ci (serving rn0 t0) d"
  shows "serve_steps qs (opened rn0 t0) (dp_busy d)" "busy_ok qs rn0 t0 (dp_busy d)"
proof -
  have "busy_ok qs rn0 t0 (dp_busy (serving rn0 t0))"
    using started_ok [OF assms(1) serve_steps_refl] by (simp add: serving_def)
  from depart_steps_serve [OF assms(2) this] show "serve_steps qs (opened rn0 t0) (dp_busy d)"
    by (simp add: serving_def)
  then show "busy_ok qs rn0 t0 (dp_busy d)" by (rule started_ok [OF assms(1)])
qed

section \<open>The course of a shutdown\<close>

text \<open>
  Where a shutdown is: what is left to do, and what holds then. A server that takes no more
  requests is idle; clients are closed behind a closed gate and an idle server only.
\<close>

definition phases :: "(go_string list option \<times> bool \<times> bool \<times> bool) set" where
  "phases =
     {(None, True, False, False),
      (Some [''readiness_gate'', ''http_server'', ''dependency_clients''], True, False, False),
      (Some [''http_server'', ''dependency_clients''], True, False, True),
      (Some [''dependency_clients''], False, False, True),
      (Some [], False, True, True),
      (Some [], True, False, True)}"

definition phase :: "departing \<Rightarrow> go_string list option \<times> bool \<times> bool \<times> bool" where
  "phase d = (dp_steps d, dp_open d, dp_closed d, ag_shutting_down (w_ag (bz_world (dp_busy d))))"

definition depart_ok :: "departing \<Rightarrow> bool" where
  "depart_ok d \<longleftrightarrow> phase d \<in> phases \<and> (dp_open d \<or> server_idle (dp_busy d))"

lemma depart_ok_serving: "rn_aggregator rn = new_aggregator opts \<Longrightarrow> depart_ok (serving rn t)"
  by (simp add: depart_ok_def phase_def phases_def serving_def opened_def initial_def new_aggregator_def)

text \<open>An idle server without new requests stays idle, and finishes nothing.\<close>

lemma idle_step:
  assumes "serve_step qs b b'" "server_idle b" "\<And>i. bz_stage b i = Expected \<Longrightarrow> bz_stage b' i = Expected"
  shows "\<exists>w'. b' = worked b w' \<and> step (contexts qs) (bz_world b) w' \<and> w_pc w' = w_pc (bz_world b)"
  using assms(1)
proof (cases rule: serve_step.cases)
  case (arrive i)
  with assms(3) [of i] show ?thesis by simp
next
  case (work w')
  have "w_pc w' i = w_pc (bz_world b) i" for i
    using work(3) [of i] assms(2) by (auto simp: server_idle_def)
  with work show ?thesis by blast
next
  case (answer i t r ops rn)
  with assms(2) show ?thesis by (simp add: server_idle_def)
qed

lemma phase_stop:
  "phase d \<in> phases \<Longrightarrow> dp_steps d = None \<Longrightarrow>
     phase (d\<lparr>dp_steps := Some (map step_name (shutdown_steps ci))\<rparr>) \<in> phases"
  by (simp add: phase_def phases_def)

lemma gate_effect:
  "ag_shutting_down (step_effect n a) \<longleftrightarrow> ag_shutting_down a \<or> n = ''readiness_gate''"
  by (simp add: step_effect_def begin_shutdown_def)

lemma phase_step_taken:
  "phase (step_taken n (d\<lparr>dp_steps := Some ns\<rparr>)) =
     (Some ns, dp_open d \<and> n \<noteq> ''http_server'', dp_closed d \<or> n = ''dependency_clients'',
      ag_shutting_down (w_ag (bz_world (dp_busy d))) \<or> n = ''readiness_gate'')"
  unfolding phase_def step_taken_simps by (simp add: gate_effect)

lemma phase_taken:
  assumes "phase d \<in> phases" "dp_steps d = Some (n # ns)"
  shows "phase (step_taken n (d\<lparr>dp_steps := Some ns\<rparr>)) \<in> phases"
  unfolding phase_step_taken using assms unfolding phases_def phase_def by (elim insertE) simp_all

lemma depart_step_ok:
  assumes "depart_step qs ci d d'" "depart_ok d"
  shows "depart_ok d'"
  using assms(1)
proof (cases rule: depart_step.cases)
  case (serve b)
  have "server_idle b" if "\<not> dp_open d"
  proof -
    have "server_idle (dp_busy d)" using assms(2) that by (simp add: depart_ok_def)
    with idle_step [OF serve(2)] serve(4) that show ?thesis
      by (metis server_idle_def worked_simps(2))
  qed
  with serve assms(2) show ?thesis by (auto simp: depart_ok_def phase_def)
next
  case stop
  with assms(2) phase_stop [of d ci] show ?thesis by (simp add: depart_ok_def)
next
  case (succeed n ns)
  from phase_taken [OF _ succeed(2)] assms(2) succeed(3) show ?thesis
    by (auto simp: succeed(1) depart_ok_def server_idle_def may_succeed_def serve_simps)
next
  case (server_fails ns)
  with assms(2) show ?thesis by (auto simp: depart_ok_def phase_def phases_def)
qed

lemma depart_steps_ok: "depart_steps qs ci d d' \<Longrightarrow> depart_ok d \<Longrightarrow> depart_ok d'"
  by (induction rule: depart_steps_induct) (auto intro: depart_step_ok)

lemma departing_ok:
  assumes "start_service gv commit prom lb cfg = Some rn0" "depart_steps qs ci (serving rn0 t0) d"
  shows "depart_ok d"
  using depart_steps_ok [OF assms(2)] depart_ok_serving [OF started(3) [OF assms(1)]] by blast

section \<open>After the clients are closed\<close>

lemma step_still:
  assumes "step cx w w'" "w_pc w' = w_pc w"
  shows "w_effects w' = w_effects w" "w_ag w' = w_ag w \<or> w_ag w' = begin_shutdown (w_ag w)"
proof -
  have pc: "w_pc w' i = w_pc w i" for i using assms(2) by simp
  from assms(1) have "w_effects w' = w_effects w \<and> (w_ag w' = w_ag w \<or> w_ag w' = begin_shutdown (w_ag w))"
  proof (cases rule: step.cases)
    case (start i)
    with pc [of i] show ?thesis by (simp add: set_pc_simps)
  next
    case (finish i t)
    with pc [of i] show ?thesis by (simp add: set_pc_simps)
  next
    case (publish i r)
    with pc [of i] show ?thesis by (simp add: set_pc_simps)
  next
    case (land i r)
    with pc [of i] show ?thesis by simp
  qed (simp_all add: set_pc_simps)
  then show "w_effects w' = w_effects w" "w_ag w' = w_ag w \<or> w_ag w' = begin_shutdown (w_ag w)"
    by blast+
qed

lemma idle_silent:
  assumes "serve_step qs b b'" "server_idle b" "\<And>i. bz_stage b i = Expected \<Longrightarrow> bz_stage b' i = Expected"
    and "ag_shutting_down (w_ag (bz_world b))" "rn_aggregator (bz_rn b) = w_ag (bz_world b)"
  shows "bz_rn b' = bz_rn b" "bz_stage b' = bz_stage b"
proof -
  obtain w' where w': "b' = worked b w'" "step (contexts qs) (bz_world b) w'" "w_pc w' = w_pc (bz_world b)"
    using idle_step [OF assms(1-3)] by blast
  have "begin_shutdown (w_ag (bz_world b)) = w_ag (bz_world b)"
    using assms(4) by (simp add: begin_shutdown_def)
  with step_still [OF w'(2,3)] have "w_ag w' = w_ag (bz_world b)" "new_effects (bz_world b) w' = []"
    by (auto simp: new_effects_def)
  with assms(5) show "bz_rn b' = bz_rn b" "bz_stage b' = bz_stage b"
    by (simp_all add: w'(1) worked_def record_effects_def)
qed

lemma closed_step:
  assumes "depart_step qs ci d d'" "depart_ok d" "dp_closed d"
    and "rn_aggregator (bz_rn (dp_busy d)) = w_ag (bz_world (dp_busy d))"
  shows "bz_rn (dp_busy d') = bz_rn (dp_busy d)" "bz_stage (dp_busy d') = bz_stage (dp_busy d)"
    "dp_closed d'"
proof -
  have at: "dp_steps d = Some []" "\<not> dp_open d" "ag_shutting_down (w_ag (bz_world (dp_busy d)))"
    "server_idle (dp_busy d)"
    using assms(2,3) by (auto simp: depart_ok_def phase_def phases_def)
  from assms(1) have "bz_rn (dp_busy d') = bz_rn (dp_busy d) \<and> bz_stage (dp_busy d') = bz_stage (dp_busy d) \<and>
      dp_closed d'"
  proof (cases rule: depart_step.cases)
    case (serve b)
    with idle_silent [OF serve(2) at(4) _ at(3) assms(4)] at(2) assms(3) show ?thesis
      by (metis departing.select_convs(1,4) departing.simps(5) departing.surjective departing.update_convs(1))
  qed (use at(1) in simp_all)
  then show "bz_rn (dp_busy d') = bz_rn (dp_busy d)" "bz_stage (dp_busy d') = bz_stage (dp_busy d)" "dp_closed d'"
    by blast+
qed

text \<open>
  C5: The dependency clients are closed last: when they are, the gate is closed, every request
  that has come is answered, nobody is inside the aggregator, and from then on nothing happens
  to the service any more: no check runs, nothing is logged or counted, no request is taken.
\<close>

theorem clients_closed_last:
  assumes "start_service gv commit prom lb cfg = Some rn0"
    and "depart_steps qs ci (serving rn0 t0) d" and "dp_closed d" and "depart_steps qs ci d d'"
  shows "ag_shutting_down (rn_aggregator (bz_rn (dp_busy d))) \<and>
    (\<forall>i. bz_stage (dp_busy d) i = Expected \<or> (\<exists>ops. bz_stage (dp_busy d) i = Finished ops)) \<and>
    (\<forall>i. \<not> inside (w_pc (bz_world (dp_busy d)) i)) \<and>
    bz_rn (dp_busy d') = bz_rn (dp_busy d) \<and> bz_stage (dp_busy d') = bz_stage (dp_busy d)"
proof -
  note ok = departing_ok [OF assms(1,2)] and busy = departing_serves(2) [OF assms(1,2)]
  from ok assms(3) have at: "ag_shutting_down (w_ag (bz_world (dp_busy d)))" "server_idle (dp_busy d)"
    by (auto simp: depart_ok_def phase_def phases_def)
  have "bz_stage (dp_busy d) i = Expected \<or> (\<exists>ops. bz_stage (dp_busy d) i = Finished ops)" for i
    using at(2) by (cases "bz_stage (dp_busy d) i") (auto simp: server_idle_def)
  moreover have "\<not> inside (w_pc (bz_world (dp_busy d)) i)" for i
    using at(2) busy_okD(6) [OF busy, of i] by (auto simp: server_idle_def)
  moreover have "bz_rn (dp_busy d') = bz_rn (dp_busy d) \<and> bz_stage (dp_busy d') = bz_stage (dp_busy d) \<and> dp_closed d'"
    using assms(4)
  proof (induction rule: depart_steps_induct)
    case (step e f)
    note reach = depart_steps_trans [OF assms(2) step.hyps(1)]
    from closed_step [OF step.hyps(2) departing_ok [OF assms(1) reach] _
        busy_okD(2) [OF departing_serves(2) [OF assms(1) reach]]] step.IH
    show ?case by simp
  qed (simp add: assms(3))
  ultimately show ?thesis using at(1) busy_okD(2) [OF busy] by simp
qed

section \<open>A shutdown can be completed\<close>

lemma serve_step_gate:
  assumes "serve_step qs b b'" "ag_shutting_down (w_ag (bz_world b))"
  shows "ag_shutting_down (w_ag (bz_world b'))"
  using assms(1) by cases (auto simp: assms(2) serve_simps dest: step_shutting_down [OF _ assms(2)])

text \<open>Behind a closed gate, as long as requests may come, the service goes on as by itself.\<close>

lemma serve_departs:
  assumes "serve_steps qs (dp_busy d) b" "dp_open d" "ag_shutting_down (w_ag (bz_world (dp_busy d)))"
  shows "depart_steps qs ci d (d\<lparr>dp_busy := b\<rparr>)"
proof -
  have "depart_steps qs ci d (d\<lparr>dp_busy := b\<rparr>) \<and> ag_shutting_down (w_ag (bz_world b))"
    using assms(1)
  proof (induction rule: serve_steps_induct)
    case refl
    show ?case using assms(3) by simp
  next
    case (step c e)
    note down = serve_step_gate [OF step.hyps(2)]
    have "depart_step qs ci (d\<lparr>dp_busy := c\<rparr>) ((d\<lparr>dp_busy := c\<rparr>)\<lparr>dp_busy := e\<rparr>)"
      by (rule depart_step.serve) (use step down assms(2) in simp_all)
    with step.IH down show ?case by (auto intro: depart_steps_trans depart_steps_one)
  qed
  then show ?thesis by simp
qed

lemma finitely_many_come:
  "serve_steps qs (opened rn t) b \<Longrightarrow> finite {i. bz_stage b i \<noteq> Expected}"
proof (induction rule: serve_steps_induct)
  case (step c d)
  have "\<exists>i. \<forall>j. j \<noteq> i \<longrightarrow> bz_stage d j = bz_stage c j"
    using step.hyps(2) by cases (auto simp: serve_simps)
  then obtain i where "\<forall>j. j \<noteq> i \<longrightarrow> bz_stage d j = bz_stage c j" by blast
  then have "{j. bz_stage d j \<noteq> Expected} \<subseteq> insert i {j. bz_stage c j \<noteq> Expected}" by auto
  with step.IH show ?case by (meson finite_insert finite_subset)
qed (simp add: opened_def)

text \<open>A drained service: what was under way is finished, all else is as it was.\<close>

fun settles :: "stage \<Rightarrow> stage \<Rightarrow> bool" where
  "settles (Under_way t) s \<longleftrightarrow> (\<exists>ops. s = Finished ops)"
| "settles Expected s \<longleftrightarrow> s = Expected"
| "settles (Finished ops) s \<longleftrightarrow> s = Finished ops"

definition drained_from :: "busy \<Rightarrow> busy \<Rightarrow> bool" where
  "drained_from b b' \<longleftrightarrow> (\<forall>i. settles (bz_stage b i) (bz_stage b' i))"

lemma drained_idle:
  assumes "drained_from b b'"
  shows "server_idle b'"
proof -
  have "\<not> settles s (Under_way t)" for s t by (cases s) simp_all
  with assms show ?thesis unfolding drained_from_def server_idle_def by metis
qed

lemma can_drain:
  assumes "busy_ok qs rn0 t0 b" "finite {i. \<exists>t. bz_stage b i = Under_way t}"
  obtains b' where "serve_steps qs b b'" "drained_from b b'"
proof -
  have "\<exists>b'. serve_steps qs b b' \<and> drained_from b b'"
    using assms
  proof (induction "card {i. \<exists>t. bz_stage b i = Under_way t}" arbitrary: b rule: less_induct)
    case less
    show ?case
    proof (cases "\<exists>i t. bz_stage b i = Under_way t")
      case False
      then have "settles (bz_stage b i) (bz_stage b i)" for i by (cases "bz_stage b i") simp_all
      then have "drained_from b b" by (simp add: drained_from_def)
      then show ?thesis using serve_steps_refl by blast
    next
      case True
      then obtain i t where i: "bz_stage b i = Under_way t" by blast
      obtain c ops where c: "serve_steps qs b c" "bz_stage c = (bz_stage b)(i := Finished ops)"
        by (rule can_be_finished [OF less.prems(1) i])
      have "{j. \<exists>t. bz_stage c j = Under_way t} \<subset> {j. \<exists>t. bz_stage b j = Under_way t}"
        using i by (auto simp: c(2) split: if_splits)
      with less.prems(2) have fewer: "card {j. \<exists>t. bz_stage c j = Under_way t} < card {j. \<exists>t. bz_stage b j = Under_way t}"
        "finite {j. \<exists>t. bz_stage c j = Under_way t}"
        by (simp_all add: psubset_card_mono psubset_imp_subset rev_finite_subset)
      from less.hyps [OF fewer(1) serve_steps_ok [OF c(1) less.prems(1)] fewer(2)]
      obtain b' where b': "serve_steps qs c b'" "drained_from c b'" by blast
      have "settles (bz_stage b j) (bz_stage b' j)" for j
        using b'(2) [unfolded drained_from_def, rule_format, of j] i by (cases "j = i") (simp_all add: c(2))
      then have "drained_from b b'" by (simp add: drained_from_def)
      with serve_steps_trans [OF c(1) b'(1)] show ?thesis by blast
    qed
  qed
  with that show thesis by blast
qed

text \<open>The shutdown is completed, and all that had come is answered.\<close>

definition completed_from :: "departing \<Rightarrow> departing \<Rightarrow> bool" where
  "completed_from d d' \<longleftrightarrow> dp_closed d' \<and> dp_steps d' = Some [] \<and>
     (\<forall>i. bz_stage (dp_busy d) i \<noteq> Expected \<longrightarrow> (\<exists>ops. bz_stage (dp_busy d') i = Finished ops))"

lemma complete_clients:
  assumes "dp_steps d = Some [''dependency_clients'']" "server_idle (dp_busy d)"
  shows "\<exists>d'. depart_steps qs ci d d' \<and> completed_from d d'"
proof -
  have "depart_step qs ci d (step_taken ''dependency_clients'' (d\<lparr>dp_steps := Some []\<rparr>))"
    by (rule depart_step.succeed [OF assms(1)]) (simp add: may_succeed_def)
  moreover have "\<exists>ops. bz_stage (dp_busy d) i = Finished ops" if "bz_stage (dp_busy d) i \<noteq> Expected" for i
    using assms(2) that by (cases "bz_stage (dp_busy d) i") (auto simp: server_idle_def)
  ultimately show ?thesis
    by (intro exI [of _ "step_taken ''dependency_clients'' (d\<lparr>dp_steps := Some []\<rparr>)"])
      (simp add: completed_from_def step_taken_simps depart_steps_one)
qed

lemma complete_server:
  assumes "dp_steps d = Some [''http_server'', ''dependency_clients'']" "depart_ok d"
    and "busy_ok qs rn0 t0 (dp_busy d)" "finite {i. bz_stage (dp_busy d) i \<noteq> Expected}"
  shows "\<exists>d'. depart_steps qs ci d d' \<and> completed_from d d'"
proof -
  have at: "dp_open d" "ag_shutting_down (w_ag (bz_world (dp_busy d)))"
    using assms(1,2) by (auto simp: depart_ok_def phase_def phases_def)
  have "finite {i. \<exists>t. bz_stage (dp_busy d) i = Under_way t}"
    by (rule finite_subset [OF _ assms(4)]) auto
  then obtain b where b: "serve_steps qs (dp_busy d) b" "drained_from (dp_busy d) b"
    by (rule can_drain [OF assms(3)])
  let ?e = "d\<lparr>dp_busy := b\<rparr>"
  let ?f = "step_taken ''http_server'' (?e\<lparr>dp_steps := Some [''dependency_clients'']\<rparr>)"
  have "depart_step qs ci ?e ?f"
    by (rule depart_step.succeed) (simp_all add: assms(1) may_succeed_def drained_idle [OF b(2)])
  with serve_departs [OF b(1) at] have run: "depart_steps qs ci d ?f"
    by (rule depart_steps_trans [OF _ depart_steps_one])
  have "server_idle (dp_busy ?f)"
    using drained_idle [OF b(2)] by (simp add: server_idle_def step_taken_simps)
  then obtain d' where d': "depart_steps qs ci ?f d'" "completed_from ?f d'"
    using complete_clients [of ?f qs ci] by (auto simp: step_taken_simps)
  have "bz_stage (dp_busy ?f) i \<noteq> Expected" if "bz_stage (dp_busy d) i \<noteq> Expected" for i
    using b(2) [unfolded drained_from_def, rule_format, of i] that
    by (cases "bz_stage (dp_busy d) i") (auto simp: step_taken_simps)
  with d'(2) have "completed_from d d'" by (simp add: completed_from_def)
  with depart_steps_trans [OF run d'(1)] show ?thesis by blast
qed

lemma can_complete:
  assumes "start_service gv commit prom lb cfg = Some rn0"
    and "depart_steps qs ci (serving rn0 t0) d" and "dp_steps d = Some (n # ns)"
  shows "\<exists>d'. depart_steps qs ci d d' \<and> completed_from d d'"
proof -
  note ok = departing_ok [OF assms(1,2)] and busy = departing_serves [OF assms(1,2)]
  note come = finitely_many_come [OF busy(1)]
  let ?g = "step_taken ''readiness_gate'' (d\<lparr>dp_steps := Some [''http_server'', ''dependency_clients'']\<rparr>)"
  consider (gate) "dp_steps d = Some [''readiness_gate'', ''http_server'', ''dependency_clients'']"
    | (server) "dp_steps d = Some [''http_server'', ''dependency_clients'']"
    | (clients) "dp_steps d = Some [''dependency_clients'']" "server_idle (dp_busy d)"
    using ok assms(3) by (auto simp: depart_ok_def phase_def phases_def)
  then show ?thesis
  proof cases
    case gate
    have first: "depart_step qs ci d ?g"
      by (rule depart_step.succeed [OF gate]) (simp add: may_succeed_def)
    note reach = depart_steps_trans [OF assms(2) depart_steps_one [OF first]]
    have "dp_steps ?g = Some [''http_server'', ''dependency_clients'']"
      "bz_stage (dp_busy ?g) = bz_stage (dp_busy d)" by (simp_all add: step_taken_simps)
    with complete_server [OF _ depart_step_ok [OF first ok] departing_serves(2) [OF assms(1) reach], where ci = ci] come
    obtain d' where "depart_steps qs ci ?g d'" "completed_from d d'"
      by (auto simp: completed_from_def)
    with depart_steps_trans [OF depart_steps_one [OF first]] show ?thesis by blast
  next
    case server
    from complete_server [OF this ok busy(2) come] show ?thesis .
  next
    case clients
    then show ?thesis by (rule complete_clients)
  qed
qed


section \<open>An example\<close>

text \<open>A process that is told to stop one microsecond after its start.\<close>

definition calm_day :: circumstances where
  "calm_day =
     \<lparr>ci_env = Map.empty, ci_linked_version = ''1.2.0'', ci_healthcheck = False,
      ci_new_request = (\<lambda>_. None), ci_fetch = (\<lambda>_ _. Inr 200), ci_checked_at = 0,
      ci_server_error = None, ci_server_shutdown = (\<lambda>_ _. (None, Some 20)),
      ci_clients = \<lparr>cls_kafka = new_kafka_checker [''kafka:9092''],
        cls_clickhouse = new_clickhouse_checker
          \<lparr>chc_addr = ''clickhouse:9000'', chc_database = [], chc_user = [], chc_password = []\<rparr>,
        cls_redis = (new_redis_checker \<lparr>rdc_addr = ''redis:6379'', rdc_password = []\<rparr>)
          \<lparr>rc_once := True, rc_client := Some 7\<rparr>,
        cls_close_clickhouse = (\<lambda>_. None), cls_close_redis = (\<lambda>_. None)\<rparr>,
      ci_signals = [(1000, Deliver ''terminated''), (1000, CancelByNotify), (1001, Rearm)]\<rparr>"

text \<open>The situation when it is, with a request under way.\<close>

lemma example_shutdown:
  obtains rn0 d where
    "start_service ''go1.26'' ''unknown'' (\<lambda>_. not_found) steady_libraries example_config = Some rn0"
    "depart_steps example_requests calm_day (serving rn0 1000) d"
    "dp_steps d = Some [''readiness_gate'', ''http_server'', ''dependency_clients'']"
    "bz_stage (dp_busy d) 0 = Under_way 1000"
proof -
  obtain rn0 where rn0: "start_service ''go1.26'' ''unknown'' (\<lambda>_. not_found) steady_libraries example_config = Some rn0"
    by (rule example_opened)
  let ?d = "serving rn0 1000"
  let ?b = "(dp_busy ?d)\<lparr>bz_stage := (bz_stage (dp_busy ?d))(0 := Under_way (w_now (bz_world (dp_busy ?d))))\<rparr>"
  let ?e = "?d\<lparr>dp_busy := ?b\<rparr>"
  have "serve_step example_requests (dp_busy ?d) ?b"
    by (rule serve_step.arrive) (simp add: serving_def opened_def)
  then have "depart_step example_requests calm_day ?d ?e"
    by (rule depart_step.serve) (simp_all add: serving_def)
  moreover have "depart_step example_requests calm_day ?e (?e\<lparr>dp_steps := Some (map step_name (shutdown_steps calm_day))\<rparr>)"
    by (rule depart_step.stop) (simp add: serving_def)
  ultimately have "depart_steps example_requests calm_day ?d (?e\<lparr>dp_steps := Some (map step_name (shutdown_steps calm_day))\<rparr>)"
    by (rule depart_steps_trans [OF depart_steps_one depart_steps_one])
  from that [OF rn0 this] show thesis by (simp add: serving_def opened_def initial_def)
qed

lemma example_completed:
  obtains rn0 d where
    "start_service ''go1.26'' ''unknown'' (\<lambda>_. not_found) steady_libraries example_config = Some rn0"
    "depart_steps example_requests calm_day (serving rn0 1000) d" "dp_closed d"
    "\<exists>ops. bz_stage (dp_busy d) 0 = Finished ops"
proof -
  obtain rn0 d where ex:
    "start_service ''go1.26'' ''unknown'' (\<lambda>_. not_found) steady_libraries example_config = Some rn0"
    "depart_steps example_requests calm_day (serving rn0 1000) d"
    "dp_steps d = Some [''readiness_gate'', ''http_server'', ''dependency_clients'']"
    "bz_stage (dp_busy d) 0 = Under_way 1000"
    by (rule example_shutdown)
  from can_complete [OF ex(1-3)] obtain d' where
    "depart_steps example_requests calm_day d d'" "completed_from d d'" by blast
  with that [OF ex(1) depart_steps_trans [OF ex(2)]] ex(4) show thesis
    by (simp add: completed_from_def)
qed


theorem clients_closed_last_witness:
  "\<exists>rn0 d ops. depart_steps example_requests calm_day (serving rn0 1000) d \<and> dp_closed d \<and>
     bz_stage (dp_busy d) 0 = Finished ops \<and> ag_shutting_down (rn_aggregator (bz_rn (dp_busy d))) \<and>
     (\<forall>i. \<not> inside (w_pc (bz_world (dp_busy d)) i))"
proof -
  obtain rn0 d where ex:
    "start_service ''go1.26'' ''unknown'' (\<lambda>_. not_found) steady_libraries example_config = Some rn0"
    "depart_steps example_requests calm_day (serving rn0 1000) d" "dp_closed d"
    "\<exists>ops. bz_stage (dp_busy d) 0 = Finished ops"
    by (rule example_completed)
  from clients_closed_last [OF ex(1-3) depart_steps_refl] ex show ?thesis by blast
qed

end
