(* ===== verification/Service_Gate.thy ===== *)
theory Service_Gate
  imports Service_Draining
begin

text \<open>
  What still runs in the aggregator once the gate is closed, while requests overlap.
\<close>

section \<open>Callers past the gate\<close>

text \<open>
  Those that have read the flag before it was set and may still begin a round.
\<close>

definition past_gate :: "world \<Rightarrow> nat set" where
  "past_gate w = {i. w_pc w i \<in> {Checked, Missed, Leading}}"

lemma past_gate_set_pc:
  "past_gate (set_pc w i p) =
     (if p \<in> {Checked, Missed, Leading} then insert i (past_gate w) else past_gate w - {i})"
  by (auto simp: past_gate_def set_pc_simps)

lemma past_gate_update [simp]:
  "past_gate (w\<lparr>w_now := n\<rparr>) = past_gate w" "past_gate (w\<lparr>w_ag := a\<rparr>) = past_gate w"
  "past_gate (w\<lparr>w_flight := f\<rparr>) = past_gate w" "past_gate (w\<lparr>w_effects := es\<rparr>) = past_gate w"
  "past_gate (w\<lparr>w_ag := a, w_rounds := ts\<rparr>) = past_gate w"
  by (simp_all add: past_gate_def)

lemma past_gate_step:
  assumes "step cx w w'" "ag_shutting_down (w_ag w)"
  shows "past_gate w' \<subseteq> past_gate w"
    "ag_check_rounds (w_ag w') = ag_check_rounds (w_ag w) \<or>
     ag_check_rounds (w_ag w') = ag_check_rounds (w_ag w) + 1 \<and> past_gate w' \<subset> past_gate w"
proof -
  have "past_gate w' \<subseteq> past_gate w \<and>
    (ag_check_rounds (w_ag w') = ag_check_rounds (w_ag w) \<or>
     ag_check_rounds (w_ag w') = ag_check_rounds (w_ag w) + 1 \<and> past_gate w' \<subset> past_gate w)"
    using assms(1)
  proof (cases rule: step.cases)
    case (start i)
    then have "i \<in> past_gate w" by (simp add: past_gate_def)
    then show ?thesis by (auto simp: start(1) past_gate_set_pc set_pc_simps)
  next
    case (land i r)
    then show ?thesis by (auto simp: past_gate_def)
  next
    case (miss i)
    then have "i \<in> past_gate w" by (simp add: past_gate_def)
    then show ?thesis by (auto simp: miss(1) past_gate_set_pc set_pc_simps)
  next
    case (lead i)
    then have "i \<in> past_gate w" by (simp add: past_gate_def)
    then show ?thesis by (auto simp: lead(1) past_gate_set_pc set_pc_simps)
  qed (use assms(2) in \<open>auto simp: past_gate_set_pc set_pc_simps begin_shutdown_def\<close>)
  then show "past_gate w' \<subseteq> past_gate w"
    "ag_check_rounds (w_ag w') = ag_check_rounds (w_ag w) \<or>
     ag_check_rounds (w_ag w') = ag_check_rounds (w_ag w) + 1 \<and> past_gate w' \<subset> past_gate w"
    by blast+
qed

text \<open>Every further round uses one of them up.\<close>

lemma past_gate_steps:
  assumes "steps cx w w'" "ag_shutting_down (w_ag w)" "finite (past_gate w)"
  shows "ag_shutting_down (w_ag w') \<and> past_gate w' \<subseteq> past_gate w \<and>
    ag_check_rounds (w_ag w') + int (card (past_gate w')) \<le> ag_check_rounds (w_ag w) + int (card (past_gate w))"
  using assms
proof (induction rule: steps.induct)
  case (more w w' w'')
  then have ih: "ag_shutting_down (w_ag w')" "past_gate w' \<subseteq> past_gate w"
    "ag_check_rounds (w_ag w') + int (card (past_gate w')) \<le> ag_check_rounds (w_ag w) + int (card (past_gate w))"
    by simp_all
  have fin: "finite (past_gate w')" by (rule finite_subset [OF ih(2) more.prems(2)])
  have "ag_check_rounds (w_ag w'') + int (card (past_gate w'')) \<le> ag_check_rounds (w_ag w') + int (card (past_gate w'))"
    using past_gate_step(2) [OF more.hyps(2) ih(1)]
  proof
    assume "ag_check_rounds (w_ag w'') = ag_check_rounds (w_ag w')"
    with card_mono [OF fin past_gate_step(1) [OF more.hyps(2) ih(1)]] show ?thesis by simp
  next
    assume "ag_check_rounds (w_ag w'') = ag_check_rounds (w_ag w') + 1 \<and> past_gate w'' \<subset> past_gate w'"
    with psubset_card_mono [OF fin, of "past_gate w''"] show ?thesis by simp
  qed
  with ih step_shutting_down [OF more.hyps(2) ih(1)] past_gate_step(1) [OF more.hyps(2) ih(1)]
  show ?case by auto
qed simp

text \<open>With none of them, and nobody probing, no effect comes any more.\<close>

definition probing_over :: "world \<Rightarrow> bool" where
  "probing_over w \<longleftrightarrow> past_gate w = {} \<and> (\<forall>i t. w_pc w i \<noteq> Probing t)"

lemma probing_over_step:
  assumes "step cx w w'" "ag_shutting_down (w_ag w)" "probing_over w"
  shows "w_effects w' = w_effects w" "probing_over w'"
proof -
  have "w_effects w' = w_effects w \<and> (\<forall>i t. w_pc w' i \<noteq> Probing t)"
    using assms(1)
  proof (cases rule: step.cases)
    case (start i)
    then have "i \<in> past_gate w" by (simp add: past_gate_def)
    with assms(3) show ?thesis by (simp add: probing_over_def)
  qed (use assms(3) in \<open>auto simp: probing_over_def set_pc_simps\<close>)
  moreover have "past_gate w' = {}"
    using past_gate_step(1) [OF assms(1,2)] assms(3) by (simp add: probing_over_def)
  ultimately show "w_effects w' = w_effects w" "probing_over w'" by (simp_all add: probing_over_def)
qed

lemma probing_over_deps:
  assumes "serve_steps qs b b'" "ag_shutting_down (w_ag (bz_world b))" "probing_over (bz_world b)"
  shows "rn_deps (bz_rn b') = rn_deps (bz_rn b)"
proof -
  have "rn_deps (bz_rn b') = rn_deps (bz_rn b) \<and> ag_shutting_down (w_ag (bz_world b')) \<and>
      probing_over (bz_world b')"
    using assms(1)
  proof (induction rule: serve_steps_induct)
    case (step c d)
    then have ih: "ag_shutting_down (w_ag (bz_world c))" "probing_over (bz_world c)"
      "rn_deps (bz_rn c) = rn_deps (bz_rn b)" by simp_all
    from step.hyps(2) show ?case
    proof (cases rule: serve_step.cases)
      case (work w')
      with probing_over_step [OF work(2) ih(1,2)] serve_step_gate [OF step.hyps(2) ih(1)] ih(3)
      show ?thesis by (simp add: serve_simps new_effects_def)
    next
      case (answer i t r ops rn)
      then have "rn_deps rn = rn_deps (bz_rn c)" by (metis finish_request_simps(5) snd_conv)
      with answer(1) ih show ?thesis by simp
    qed (use ih in simp)
  qed (simp add: assms(2,3))
  then show ?thesis by blast
qed

section \<open>Rounds after the gate\<close>

text \<open>
  C14: A closed gate stops the probing, however requests overlap: the rounds still begun after
  it are no more than the callers that had passed it and have not begun one, and when there is
  no such caller and nobody is probing, the dependency metrics never change again.
\<close>

theorem closed_gate_stops_rounds:
  assumes "start_service gv commit prom lb cfg = Some rn0" and "serve_steps qs (opened rn0 t0) b"
    and "ag_shutting_down (rn_aggregator (bz_rn b))" and "serve_steps qs b b'"
  shows "finite {i. w_pc (bz_world b) i \<in> {Checked, Missed, Leading}} \<and>
    check_rounds (rn_aggregator (bz_rn b')) \<le> check_rounds (rn_aggregator (bz_rn b)) +
      int (card {i. w_pc (bz_world b) i \<in> {Checked, Missed, Leading}}) \<and>
    ((\<forall>i t. w_pc (bz_world b) i \<notin> {Checked, Missed, Leading} \<and> w_pc (bz_world b) i \<noteq> Probing t) \<longrightarrow>
       rn_deps (bz_rn b') = rn_deps (bz_rn b))"
proof -
  note ok = started_ok [OF assms(1,2)]
  have down: "ag_shutting_down (w_ag (bz_world b))" using assms(3) by (simp add: busy_okD(2) [OF ok])
  have "past_gate (bz_world b) \<subseteq> {i. bz_stage b i \<noteq> Expected}"
    using busy_okD(5) [OF ok] by (fastforce simp: past_gate_def)
  with finitely_many_come [OF assms(2)] have fin: "finite (past_gate (bz_world b))"
    by (rule finite_subset [rotated])
  from past_gate_steps [OF serve_steps_world [OF assms(4)] down fin]
  have "ag_check_rounds (w_ag (bz_world b')) \<le> ag_check_rounds (w_ag (bz_world b)) + int (card (past_gate (bz_world b)))"
    by simp
  moreover have "rn_deps (bz_rn b') = rn_deps (bz_rn b)"
    if "\<forall>i t. w_pc (bz_world b) i \<notin> {Checked, Missed, Leading} \<and> w_pc (bz_world b) i \<noteq> Probing t"
    by (rule probing_over_deps [OF assms(4) down])
      (use that in \<open>simp add: probing_over_def past_gate_def\<close>)
  ultimately show ?thesis
    using fin busy_okD(2) [OF ok] busy_okD(2) [OF serve_steps_ok [OF assms(4) ok]]
    by (simp add: past_gate_def check_rounds_def)
qed

theorem closed_gate_stops_rounds_witness:
  "\<exists>rn0 b ops. serve_steps example_requests (opened rn0 1000) b \<and> bz_stage b 0 = Finished ops \<and>
     check_rounds (rn_aggregator (bz_rn b)) \<le> 0 \<and> rn_deps (bz_rn b) = rn_deps rn0"
proof -
  obtain rn0 b b' ops where ex:
    "start_service ''go1.26'' ''unknown'' (\<lambda>_. not_found) steady_libraries example_config = Some rn0"
    "serve_steps example_requests (opened rn0 1000) b" "ag_shutting_down (rn_aggregator (bz_rn b))"
    "\<forall>i. w_pc (bz_world b) i = Idle" "bz_rn b = close_gate rn0"
    "serve_steps example_requests b b'" "bz_stage b' 0 = Finished ops"
    by (rule example_gated)
  have "check_rounds (rn_aggregator rn0) = 0"
    by (simp add: started(3) [OF ex(1)] new_aggregator_def check_rounds_def)
  then have "check_rounds (rn_aggregator (bz_rn b)) = 0" "rn_deps (bz_rn b) = rn_deps rn0"
    by (simp_all add: ex(5) close_gate_def step_effect_def begin_shutdown_def check_rounds_def)
  with closed_gate_stops_rounds [OF ex(1-3,6)] ex(4)
  have "check_rounds (rn_aggregator (bz_rn b')) \<le> 0" "rn_deps (bz_rn b') = rn_deps rn0" by simp_all
  with serve_steps_trans [OF ex(2,6)] ex(7) show ?thesis by blast
qed

end
