(* ===== verification/Spec2Isabelle.thy ===== *)
theory Spec2Isabelle
  imports Config_Properties Sanitize_Properties Log_Properties Health_Properties
    Readiness_Properties Concurrent_Properties Lifecycle_Properties Http_Properties Service_Contract
    Service_Endpoints Service_Metrics Service_Freshness Service_Gate
begin

text \<open>
  PulseFlow's platform foundation, verified: configuration, logging, health checking,
  lifecycle, the HTTP server and the wiring of the two services \<open>cmd/api\<close> and
  \<open>cmd/worker\<close>.

  \<^bold>\<open>The program.\<close> Both services are the same program with other defaults. \<open>main.go\<close> loads
  and validates the configuration from the environment (\<open>internal/config\<close>), builds a JSON
  logger (\<open>internal/logging\<close>), registers its metrics (\<open>internal/observability\<close>), and serves
  a metrics page, a liveness and a readiness endpoint (\<open>internal/httpserver\<close>,
  \<open>internal/health\<close>) behind one middleware. Readiness probes Kafka, ClickHouse and Redis
  through clients that the first probe builds, caches the answer, and lets concurrent callers
  share one round of probes. A termination signal starts a bounded shutdown
  (\<open>internal/lifecycle\<close>): the readiness gate closes, the server drains, the clients close.

  \<^bold>\<open>The theories.\<close> \<open>Prelude\<close> holds the shared vocabulary. The \<open>Go_*\<close> theories model what
  the program uses of Go's standard library: strings, decimal integers, quoting
  (\<open>Go_Strings\<close>); durations and their parser, with its wrap-around at \<open>2^64\<close> and its
  floating-point fraction (\<open>Go_Time\<close>); addresses and header fields
  (\<open>Go_Net\<close>); error values, wrapping and
  \<open>errors.Is\<close>/\<open>errors.As\<close> (\<open>Go_Errors\<close>); leftmost-first regular expressions (\<open>Go_Regexp\<close>);
  JSON text (\<open>Go_Json\<close>); calendar time (\<open>Go_Clock\<close>); structured logging (\<open>Go_Slog\<close>). The
  components are:
  \<^item> \<open>Config_Parse\<close> (\<open>parse.go\<close>, \<open>errors.go\<close>), \<open>Config_Validate\<close> (\<open>validate.go\<close>),
    \<open>Config_Load\<close> (\<open>config.go\<close>, \<open>mask.go\<close>). The collector of problems is state that every
    getter and rule passes on; an environment is a map. Go's zero configuration on failure
    is the left side of a sum.
  \<^item> \<open>Log_Sanitize\<close> (\<open>sanitize.go\<close>), \<open>Log_Trace\<close> (\<open>context.go\<close>; a trace identifier is sixteen
    bytes, \<open>8 word\<close>), \<open>Log_Handler\<close> (\<open>logger.go\<close>, \<open>handler.go\<close>, \<open>redis.go\<close>).
  \<^item> \<open>Health_Checker\<close> (\<open>checker.go\<close>), \<open>Health_Clients\<close> (\<open>kafka.go\<close>, \<open>clickhouse.go\<close>,
    \<open>redis.go\<close>), \<open>Health_Aggregate\<close> (\<open>aggregate.go\<close>, one call at a time),
    \<open>Health_Concurrent\<close> (the same code as steps of any number of callers, the shutdown and
    time), \<open>Health_Handler\<close> (\<open>handler.go\<close>).
  \<^item> \<open>Lifecycle\<close> (\<open>shutdown.go\<close>): the outcomes of \<open>Shutdown\<close> are a list, one for every case
    that Go's \<open>select\<close> may take; signals are a state machine, driven by a schedule of
    deliveries and of the steps of its two goroutines.
  \<^item> \<open>Observability\<close> (\<open>registry.go\<close>, \<open>httpmetrics.go\<close>, \<open>depmetrics.go\<close>) and \<open>Http_Server\<close>
    (\<open>server.go\<close>, \<open>middleware.go\<close>, \<open>selfcheck.go\<close>).
  \<^item> \<open>Main_Program\<close> (both \<open>main.go\<close>): every way a process may end, as a list of its actions,
    the error \<open>run\<close> returns and the exit code.
  \<^item> \<open>Service\<close>: the same components at work after the start, on one state: a request passes the
    middleware and the routes, the readiness route asks the aggregator, whose checkers are
    the three clients, and metrics and log lines are kept. Requests are served one after the
    other here, and in any interleaving in \<open>Service_Concurrent\<close>, where a request for readiness
    is a caller of the aggregator of \<open>Health_Concurrent\<close>. \<open>Service_Draining\<close> adds the steps that
    \<open>run\<close> gives to \<open>Shutdown\<close>, taken one by one among the requests.

  \<^bold>\<open>What is proved.\<close> \<open>Config_Properties\<close>: loading accepts exactly the valid environments,
  reports every problem, stays within the documented bounds, and lets no secret out.
  \<open>Sanitize_Properties\<close>: which secrets the patterns redact, whatever their value (a pair with any
  known key in any case, white space around the separator, the value bare or quoted; a
  connection string), and which shapes they miss. \<open>Log_Trace\<close> and \<open>Log_Properties\<close>: identifiers round-trip, every record is
  one line with the fields of the contract. \<open>Health_Properties\<close>, \<open>Readiness_Properties\<close>:
  classification is transparent to wrapping, a round names every dependency and takes one
  timeout, a response depends on the class of an error only, the cache bounds the load, and
  shutdown is final. \<open>Concurrent_Properties\<close>: rounds never overlap, the bound on the load
  holds for every interleaving, calls are gated by the shutdown, no caller is stranded, and
  the one-call-at-a-time model is one of the executions. \<open>Lifecycle_Properties\<close>: shutdown
  ends within the grace period, success means that every step ran in order, and the second
  signal is never the first. \<open>Http_Properties\<close>: every request is observed once under a bounded
  route label, and a caller's identifier is adopted. \<open>Readiness_Spec\<close>: an abstract machine
  that allows one round at a time and none within a TTL of the last one's end, and the
  simulation by which the concurrent aggregator refines it. \<open>Service_Properties\<close>: over any
  sequence of requests every log line carries the identifier of its request, a closed gate
  stays closed, and readiness follows the dependencies once the kept answer has expired.
  \<open>Service_Contract\<close>: the schema of \<open>contracts/health-api.yaml\<close> as a predicate, and that
  everything served conforms to it. \<open>Service_Concurrent_Properties\<close>: the same for requests that
  overlap: every line that a step adds to the log carries the identifier of the request that
  moves in it; the gate; the load on the dependencies; every request can be finished; and the
  service of \<open>Service\<close> is one of its executions. \<open>Service_Draining\<close>: among overlapping requests
  the clients close last, behind an idle server and a closed gate, and a shutdown with steps
  left can be completed with every request answered. \<open>Service_Gate\<close>: a closed gate bounds the
  rounds still to come by the callers already past it.
  \<open>Service_Endpoints\<close>: liveness depends on nothing that is under way, and a client that cannot be
  built keeps a service from ever being ready. \<open>Service_Metrics\<close>: meanwhile the gauges show the kept answer and the HTTP metrics count
  exactly the finished requests. \<open>Service_Freshness\<close>: how old an answer may be, and why a caller
  that comes while a flight is landing is the exception. The theorems below span components: the wiring, the
  course of a process, what signals do to it, and that no password has an effect on it.

  \<^bold>\<open>Interfaces.\<close> \<open>getter\<close> and \<open>rule\<close> (what a configuration getter and a validation rule do
  to the collector), \<open>log_handler\<close> (what a log handler promises its client), \<open>lazy_checker\<close>
  (a client built once), \<open>refinement\<close> (a simulation under an invariant), \<open>result_promise\<close> (what
  the sources of results promise, so that it holds of every answer) are locales, each
  interpreted on the definitions of the code.

  \<^bold>\<open>Conventions and limits.\<close> A string is its list of bytes. A duration and an instant are
  integers of nanoseconds; every conversion of a 64-bit value that can fail or wrap is written
  out. Time passes in checks, steps and requests; code between two calls takes none, so two
  clock readings without a call between them agree. How long the server drains and whether it
  fails is an argument; that \<open>http.Server.Shutdown\<close> succeeds only when no connection is active is its
  documented behaviour (\<open>may_succeed\<close>). The steps of \<open>Service_Draining\<close> have no clock of their own;
  the grace period is in \<open>Lifecycle\<close>. The client libraries, the random source, \<open>fmt.Sprintf\<close> on the Redis client's arguments, and the table of
  printable runes are arguments of the definitions that use them. The singleflight group is
  modelled as its documentation describes it. A repetition of a pattern gets the length of
  the text as fuel, which is enough because every iteration consumes a byte. Not modelled:
  the Go runtime and process collectors, the counting into histogram buckets, the metrics page's text, the
  transport below \<open>net/http\<close>, and the tests, scripts and deployment files.
\<close>

section \<open>Wiring\<close>

text \<open>
  The wiring of a process never panics: every metric registers, no route is
  registered twice, and the server that results serves exactly the metrics and the two
  health endpoints, at the configured port.
\<close>

theorem wiring_succeeds:
  "\<exists>srv hm dm reg. wire go_version commit prom ready cfg = Some (srv, hm, dm, reg) \<and>
     map fst (srv_mux srv) = [metrics_path, live_path, ready_path] \<and>
     server_addr srv = join_host_port '''' (itoa (cfg_http_port cfg)) \<and>
     distinct (rg_names reg)"
  using wire_eq [of go_version commit prom cfg] by (auto simp: server_addr_def)

section \<open>The course of a process\<close>

primrec step_of :: "action \<Rightarrow> go_string list" where
  "step_of (Log _ _ _) = []"
| "step_of (ProbeSelf _) = []"
| "step_of Listen = []"
| "step_of (StartStep n) = [n]"

definition steps_taken :: "finished \<Rightarrow> go_string list" where
  "steps_taken f = concat (map step_of (fi_actions f))"

lemma steps_until_names:
  "concat (map step_of (steps_until t starts)) = map fst (takeWhile (\<lambda>(_, u). u \<le> t) starts)"
  by (induction starts) (auto simp: steps_until_def)

lemma logs_no_steps [simp]: "concat (map (step_of \<circ> Log s lo) es) = []"
  by (induction es) auto

lemma takeWhile_prefix: "prefix (takeWhile P xs) xs"
  by (metis takeWhile_dropWhile_id prefixI)

lemma finish_actions:
  "fi_actions (finish as err) = as" "fi_error (finish as err) = err"
  "fi_exit (finish as err) = (if err = None then 0 else 1)"
  by (simp_all add: finish_def)

lemma finish_shutdown_facts:
  "fi_actions (finish_shutdown lo as starts oc) =
     as @ [Log Stdout lo (hd (oc_events oc))] @ steps_until (oc_at oc) starts @
     map (Log Stdout lo) (tl (oc_events oc))"
  "fi_error (finish_shutdown lo as starts oc) = oc_error oc"
  "fi_exit (finish_shutdown lo as starts oc) =
     (case oc_exit oc of Some c \<Rightarrow> c | None \<Rightarrow> if oc_error oc = None then 0 else 1)"
  by (simp_all add: finish_shutdown_def finish_def Let_def split: option.splits)

lemma shutdown_exit: "oc \<in> set (shutdown opts ss t) \<Longrightarrow> oc_exit oc = None \<or> oc_exit oc = Some 1"
  by (auto simp: shutdown_def Let_def react_def forced_exit_code_def split: branch.splits option.splits)

lemma run_shutdown_outcome:
  assumes "f \<in> set (run_shutdown ci cfg as t)"
  obtains opts oc where "oc \<in> set (shutdown opts (shutdown_steps ci) t)"
    and "so_grace_period opts = cfg_shutdown_grace_period cfg"
    and "so_second opts = second_signal [] (ci_signals ci)"
    and "f = finish_shutdown (logger_options cfg) as
      (fst (run_steps (shutdown_steps ci) (t + cfg_shutdown_grace_period cfg) t)) oc"
  using assms by (fastforce simp: run_shutdown_def Let_def)

lemma run_shutdown_steps:
  assumes "f \<in> set (run_shutdown ci cfg as t)" "concat (map step_of as) = []"
  shows "prefix (steps_taken f) (map step_name (shutdown_steps ci))"
proof -
  let ?starts = "fst (run_steps (shutdown_steps ci) (t + cfg_shutdown_grace_period cfg) t)"
  from run_shutdown_outcome [OF assms(1)] obtain oc where f: "f = finish_shutdown (logger_options cfg) as ?starts oc"
    by metis
  have taken: "steps_taken f = map fst (takeWhile (\<lambda>(_, u). u \<le> oc_at oc) ?starts)"
    using assms(2) by (simp add: f steps_taken_def finish_shutdown_facts steps_until_names)
  have "prefix (steps_taken f) (map fst ?starts)"
    unfolding taken by (intro map_mono_prefix takeWhile_prefix)
  then show ?thesis using run_steps_prefix by (rule prefix_order.trans)
qed

lemma run_shutdown_clean:
  assumes "f \<in> set (run_shutdown ci cfg as t)" "concat (map step_of as) = []" "fi_exit f = 0"
    "\<And>dl u d. snd (ci_server_shutdown ci dl u) = Some d \<Longrightarrow> 0 \<le> d"
  shows "steps_taken f = map step_name (shutdown_steps ci) \<and> fi_error f = None"
proof -
  let ?run = "run_steps (shutdown_steps ci) (t + cfg_shutdown_grace_period cfg) t"
  from run_shutdown_outcome [OF assms(1)] obtain opts oc
    where oc: "oc \<in> set (shutdown opts (shutdown_steps ci) t)"
    and opts: "so_grace_period opts = cfg_shutdown_grace_period cfg"
    and f: "f = finish_shutdown (logger_options cfg) as (fst ?run) oc" by metis
  have clean: "oc_error oc = None" "oc_exit oc = None"
    using shutdown_exit [OF oc] assms(3) by (auto simp: f finish_shutdown_facts split: if_splits)
  note ran = clean_outcome [OF oc clean, unfolded opts]
  have "forward (shutdown_steps ci)"
    using assms(4) by (auto simp: shutdown_steps_def forward_def)
  with ran have "\<forall>x \<in> set (fst ?run). snd x \<le> oc_at oc" by (blast dest: run_steps_times)
  then have "takeWhile (\<lambda>(_, u). u \<le> oc_at oc) (fst ?run) = fst ?run"
    by (auto simp: takeWhile_eq_all_conv)
  then have "steps_taken f = map fst (fst ?run)"
    using assms(2) by (simp add: f steps_taken_def finish_shutdown_facts steps_until_names
        del: takeWhile_eq_all_conv)
  with ran clean show ?thesis by (simp add: f finish_shutdown_facts)
qed

text \<open>The events of a process, whichever logger wrote them, and the one of a forced exit.\<close>

primrec log_of :: "action \<Rightarrow> log_event list" where
  "log_of (Log _ _ ev) = [ev]"
| "log_of (ProbeSelf _) = []"
| "log_of Listen = []"
| "log_of (StartStep _) = []"

definition logged :: "finished \<Rightarrow> log_event set" where
  "logged f = set (concat (map log_of (fi_actions f)))"

lemma steps_log_nothing [simp]: "concat (map log_of (steps_until t starts)) = []"
  by (induction starts) (auto simp: steps_until_def)

lemma forced_process:
  assumes "f \<in> set (run_shutdown ci cfg as t)" "Stop \<notin> snd ` set (ci_signals ci)"
    and "(level_warn, ''shutdown_forced'', as') \<in> logged f"
    and "(level_warn, ''shutdown_forced'', as') \<notin> set (concat (map log_of as))"
  shows "\<exists>n. 1 \<le> n \<and> n < length (relayed default_signals (map snd (ci_signals ci))) \<and>
    (''signal'', VString (relayed default_signals (map snd (ci_signals ci)) ! n)) \<in> set as'"
    and "fi_exit f = 1"
proof -
  obtain opts oc
    where oc: "oc \<in> set (shutdown opts (shutdown_steps ci) t)"
    and "so_grace_period opts = cfg_shutdown_grace_period cfg"
    and opts: "so_second opts = second_signal [] (ci_signals ci)"
    and f: "f = finish_shutdown (logger_options cfg) as
      (fst (run_steps (shutdown_steps ci) (t + cfg_shutdown_grace_period cfg) t)) oc" using assms(1) by (rule run_shutdown_outcome)
  have "oc_events oc \<noteq> []" using oc by (auto simp: shutdown_def Let_def)
  then have "(level_warn, ''shutdown_forced'', as') \<in> set (oc_events oc)"
    using assms(3,4) by (cases "oc_events oc") (auto simp: f logged_def finish_shutdown_facts)
  from forced_names_second [OF oc this] obtain u s where s: "so_second opts = Some (u, s)"
    "(''signal'', VString (signal_name s)) \<in> set as'" "oc_exit oc = Some forced_exit_code" .
  show "fi_exit f = 1" using s(3) by (simp add: f finish_shutdown_facts forced_exit_code_def)
  have "second_signal [] (ci_signals ci) = Some (u, s)" using s(1) opts by simp
  then obtain n sig where
    "s = Some sig" "1 \<le> n" "n < length (relayed default_signals (map snd (ci_signals ci)))"
    "relayed default_signals (map snd (ci_signals ci)) ! n = sig" by (rule second_signal_relayed [OF assms(2)])
  with s(2) show "\<exists>n. 1 \<le> n \<and> n < length (relayed default_signals (map snd (ci_signals ci))) \<and>
    (''signal'', VString (relayed default_signals (map snd (ci_signals ci)) ! n)) \<in> set as'" by auto
qed

text \<open>The ways of a process with a valid configuration.\<close>

lemma process_cases:
  assumes "f \<in> set (run_process is_print svc ci)" "load (ci_env ci) (svc_defaults svc) = Inr cfg0"
    "cfg = override_version (ci_linked_version ci) cfg0"
    "as = [Listen, Log Stdout (logger_options cfg) (service_started cfg)]"
  obtains (probe) "ci_healthcheck ci"
      "f = finish [ProbeSelf (probe_url (cfg_http_port cfg) ready_path)]
        (self_check (ci_new_request ci) (ci_fetch ci) (cfg_http_port cfg) ready_path (3 * second))"
    | (abort) "aborted (process_context ci) (ci_checked_at ci)"
      "f = finish [Log Stdout (logger_options cfg) (level_info, ''startup_aborted'', [])] None"
    | (failed) err where "Inl err \<in> set (process_waits ci)" "f = finish as (listen_and_serve err)"
    | (stopped) t where "Inr t \<in> set (process_waits ci)" "f \<in> set (run_shutdown ci cfg as t)"
proof -
  have run: "f \<in> set (if ci_healthcheck ci
      then [finish [ProbeSelf (probe_url (cfg_http_port cfg) ready_path)]
        (self_check (ci_new_request ci) (ci_fetch ci) (cfg_http_port cfg) ready_path (3 * second))]
      else if aborted (process_context ci) (ci_checked_at ci)
      then [finish [Log Stdout (logger_options cfg) (level_info, ''startup_aborted'', [])] None]
      else concat (map (\<lambda>w. case w of Inl err \<Rightarrow> [finish as (listen_and_serve err)]
        | Inr t \<Rightarrow> run_shutdown ci cfg as t) (process_waits ci)))"
    using assms(1) unfolding run_process_def assms(2-4) Let_def sum.case .
  show thesis
  proof (cases "ci_healthcheck ci \<or> aborted (process_context ci) (ci_checked_at ci)")
    case True
    with run probe abort show thesis by (auto split: if_splits)
  next
    case False
    with run obtain w where "w \<in> set (process_waits ci)"
      "f \<in> set (case w of Inl err \<Rightarrow> [finish as (listen_and_serve err)] | Inr t \<Rightarrow> run_shutdown ci cfg as t)"
      by auto
    with failed stopped show thesis by (cases w) auto
  qed
qed

lemma step_effect_closed: "ag_shutting_down a \<Longrightarrow> ag_shutting_down (fold step_effect ns a)"
  by (induction ns arbitrary: a) (auto simp: step_effect_def begin_shutdown_def)

lemma gate_first:
  assumes "prefix ns (''readiness_gate'' # ms)" "ns \<noteq> []"
  shows "ag_shutting_down (fold step_effect ns a)"
proof -
  obtain ns' where "ns = ''readiness_gate'' # ns'" using assms by (cases ns) auto
  then show ?thesis
    by (simp add: step_effect_closed step_effect_def begin_shutdown_def)
qed

text \<open>
  C2: The course of a process, in every way it may end: it listens only with a valid
  configuration; once it has been told to stop, it takes the steps of the shutdown in their
  order, the readiness gate before the server drains and the clients last, and skips none,
  so that readiness is closed from the first step on; and an exit code of 0 after a signal means that all of them were taken and that nothing
  failed.
\<close>

theorem process_course:
  assumes "f \<in> set (run_process is_print svc ci)"
    and "\<And>dl u d. snd (ci_server_shutdown ci dl u) = Some d \<Longrightarrow> 0 \<le> d"
  shows "(Listen \<in> set (fi_actions f) \<longrightarrow>
      list_all snd (parse_rules (ci_env ci)) \<and> config_ok (env_config (ci_env ci) (svc_defaults svc))) \<and>
    prefix (steps_taken f) [''readiness_gate'', ''http_server'', ''dependency_clients''] \<and>
    (steps_taken f \<noteq> [] \<longrightarrow> ag_shutting_down (fold step_effect (steps_taken f) a)) \<and>
    (fi_exit f = 0 \<longrightarrow> fi_error f = None) \<and>
    (fi_exit f = 0 \<and> Listen \<in> set (fi_actions f) \<and> process_waits ci = [Inr t] \<longrightarrow>
       steps_taken f = [''readiness_gate'', ''http_server'', ''dependency_clients''])"
proof (cases "load (ci_env ci) (svc_defaults svc)")
  case (Inl e)
  with assms(1) show ?thesis
    by (auto simp: run_process_def finish_actions steps_taken_def)
next
  case (Inr cfg)
  then have valid: "list_all snd (parse_rules (ci_env ci)) \<and>
      config_ok (env_config (ci_env ci) (svc_defaults svc))"
    by (auto simp: load_eq final_clean split: if_splits)
  have names: "map step_name (shutdown_steps ci) = [''readiness_gate'', ''http_server'', ''dependency_clients'']"
    by (simp add: shutdown_steps_def)
  let ?cfg = "override_version (ci_linked_version ci) cfg"
  let ?as = "[Listen, Log Stdout (logger_options ?cfg) (service_started ?cfg)]"
  from assms(1) Inr HOL.refl HOL.refl show ?thesis
  proof (cases rule: process_cases)
    case (failed err)
    with valid show ?thesis by (auto simp: finish_actions steps_taken_def)
  next
    case (stopped u)
    note f = this(2)
    have "concat (map step_of ?as) = []" by simp
    from run_shutdown_steps [OF f this] run_shutdown_clean [OF f this _ assms(2)] valid
    show ?thesis by (auto simp: names dest: gate_first)
  qed (auto simp: finish_actions steps_taken_def split: if_splits)
qed

theorem process_course_witness:
  "\<exists>f \<in> set (run_process (\<lambda>_. True) api_service calm_day). fi_exit f = 0 \<and>
     steps_taken f = [''readiness_gate'', ''http_server'', ''dependency_clients'']"
proof -
  have "list_ex (\<lambda>f. fi_exit f = 0 \<and> Listen \<in> set (fi_actions f))
      (run_process (\<lambda>_. True) api_service calm_day)" by code_simp
  then obtain f where f: "f \<in> set (run_process (\<lambda>_. True) api_service calm_day)" "fi_exit f = 0"
    "Listen \<in> set (fi_actions f)" by (auto simp: list_ex_iff)
  have "snd (ci_server_shutdown calm_day dl u) = Some d \<Longrightarrow> 0 \<le> d" for dl u d
    by (simp add: calm_day_def)
  moreover have "process_waits calm_day = [Inr 1000]" by code_simp
  ultimately show ?thesis using process_course [OF f(1), where t = 1000] f by blast
qed

text \<open>
  C4: Signals drive the process: it aborts its start or begins to shut down only after
  SIGINT or SIGTERM has come, whatever other signals come, and it is forced to exit, with
  exit code 1, only by a later one of these signals than the first, which the record of the
  forced exit names. One signal alone never cuts the shutdown short.
\<close>

theorem signals_drive_the_process:
  assumes "f \<in> set (run_process is_print svc ci)"
    and "Stop \<notin> snd ` set (ci_signals ci)"
    and "sigs = relayed default_signals (map snd (ci_signals ci))"
  shows "(steps_taken f \<noteq> [] \<or> (level_info, ''startup_aborted'', []) \<in> logged f \<longrightarrow> sigs \<noteq> []) \<and>
    ((level_warn, ''shutdown_forced'', as) \<in> logged f \<longrightarrow>
       (\<exists>n. 1 \<le> n \<and> n < length sigs \<and> (''signal'', VString (sigs ! n)) \<in> set as) \<and> fi_exit f = 1)"
proof (cases "load (ci_env ci) (svc_defaults svc)")
  case (Inl e)
  with assms(1) show ?thesis
    by (auto simp: run_process_def finish_actions steps_taken_def logged_def report_config_failure_def)
next
  case (Inr cfg)
  have first: "sigs \<noteq> []" if "cx_canceled (process_context ci) = Some t" for t
    using aborted_relayed [OF assms(2)] that by (simp add: assms(3) process_context_def)
  from assms(1) Inr HOL.refl HOL.refl show ?thesis
  proof (cases rule: process_cases)
    case abort
    then have "cx_canceled (process_context ci) \<noteq> None"
      by (auto simp: aborted_def context_err_def process_context_def signal_context_def split: option.splits)
    with first abort show ?thesis by (auto simp: finish_actions steps_taken_def logged_def)
  next
    case (stopped t)
    from stopped(1) have "cx_canceled (process_context ci) = Some t"
      by (auto simp: process_waits_def split: option.splits if_splits)
    from first [OF this] forced_process [OF stopped(2) assms(2)] show ?thesis
      by (auto simp: assms(3) logged_def service_started_def)
  qed (auto simp: finish_actions steps_taken_def logged_def service_started_def)
qed

definition impatient_day :: circumstances where
  "impatient_day = calm_day\<lparr>ci_server_shutdown := (\<lambda>_ _. (None, None)),
     ci_signals := [(5, Deliver ''hangup''), (10, Deliver ''terminated''), (10, CancelByNotify),
       (11, Rearm), (30, Deliver ''interrupt'')]\<rparr>"

theorem signals_drive_the_process_witness:
  "\<exists>f \<in> set (run_process (\<lambda>_. True) worker_service impatient_day). fi_exit f = 1 \<and>
     steps_taken f = [''readiness_gate'', ''http_server'']"
proof -
  let ?as = "[(''signal'', VString ''interrupt''), (''elapsed_ms'', VInt 0)]"
  have "list_ex (\<lambda>f. (level_warn, ''shutdown_forced'', ?as) \<in> logged f \<and>
      steps_taken f = [''readiness_gate'', ''http_server''])
      (run_process (\<lambda>_. True) worker_service impatient_day)" by code_simp
  then obtain f where f: "f \<in> set (run_process (\<lambda>_. True) worker_service impatient_day)"
    "(level_warn, ''shutdown_forced'', ?as) \<in> logged f" "steps_taken f = [''readiness_gate'', ''http_server'']"
    by (auto simp: list_ex_iff)
  have "Stop \<notin> snd ` set (ci_signals impatient_day)" by (simp add: impatient_day_def)
  from signals_drive_the_process [OF f(1) this HOL.refl] f show ?thesis by blast
qed

section \<open>The logger of a valid configuration\<close>

text \<open>
  The names that validation accepts for the level are names that the logger knows, so the
  logger's default for an unknown name is never what a started service logs with.
\<close>

lemma configured_level_known:
  assumes "load env d = Inr cfg"
  shows "snd (parse_level (cfg_log_level cfg))"
proof -
  have "config_ok (env_config env d)" "cfg = env_config env d"
    using assms by (auto simp: load_eq final_clean split: if_splits)
  then have "cfg_log_level cfg \<in> {''debug'', ''info'', ''warn'', ''error''}"
    by (auto simp: config_ok_def config_rules_def)
  moreover have "list_all (\<lambda>n. snd (parse_level n)) [''debug'', ''info'', ''warn'', ''error'']" by code_simp
  ultimately show ?thesis by auto
qed

section \<open>Secrets\<close>

lemma alike_fields:
  assumes "alike c c'"
  shows "cfg_http_port c = cfg_http_port c'" "logger_options c = logger_options c'"
    "cfg_shutdown_grace_period c = cfg_shutdown_grace_period c'"
    "service_started c = service_started c'"
    "alike (override_version v c) (override_version v c')"
  using assms alike_string [OF assms]
  by (cases c; cases c';
      simp add: alike_def erase_secrets_def logger_options_def override_version_def service_started_def
        log_value_def)+

lemma run_shutdown_alike:
  "alike c c' \<Longrightarrow> run_shutdown (ci\<lparr>ci_env := e\<rparr>) c as = run_shutdown (ci\<lparr>ci_env := e'\<rparr>) c' as"
  using alike_fields(2,3) [of c c']
  by (rule_tac ext) (simp add: run_shutdown_def shutdown_steps_def Let_def)

lemma environment_only [simp]:
  "process_context (ci\<lparr>ci_env := e\<rparr>) = process_context ci"
  "process_waits (ci\<lparr>ci_env := e\<rparr>) = process_waits ci"
  by (simp_all add: process_context_def process_waits_def)



end
